theory Spec2Isabelle
  imports Main
begin

section \<open>Python strings and pathlib names\<close>

text \<open>
  The program (\<^verbatim>\<open>rename_files.py\<close>) works on file names. A name is a \<^typ>\<open>string\<close>.
  This section embeds the string and \<^verbatim>\<open>pathlib\<close> operations the program calls:
  \<^verbatim>\<open>f"{i}"\<close> for a counter, \<^verbatim>\<open>str.rfind\<close>, \<^verbatim>\<open>str.split(sep, 1)[0]\<close>,
  \<^verbatim>\<open>Path.suffix\<close> and \<^verbatim>\<open>Path.stem\<close>.
\<close>

definition digit_char :: "nat \<Rightarrow> char" where
  "digit_char d = char_of (48 + d)"

text \<open>\<^verbatim>\<open>f"{i}"\<close> for an \<^verbatim>\<open>int\<close> that starts at 1 and is only incremented: the decimal
  digits, most significant first, no sign and no leading zero.\<close>

fun format_int :: "nat \<Rightarrow> string" where
  "format_int n =
     (if n < 10 then [digit_char n]
      else format_int (n div 10) @ [digit_char (n mod 10)])"

declare format_int.simps [simp del]

text \<open>\<^verbatim>\<open>s.rfind(c)\<close>: the index of the last occurrence of \<open>c\<close>, or \<open>-1\<close>.\<close>

definition rfind :: "string \<Rightarrow> char \<Rightarrow> int" where
  "rfind s c =
     (if c \<in> set s
      then int (length s) - 1 - int (length (takeWhile (\<lambda>x. x \<noteq> c) (rev s)))
      else - 1)"

text \<open>
  \<^verbatim>\<open>PurePath.suffix\<close> and \<^verbatim>\<open>PurePath.stem\<close> as pathlib defines them (CPython up to 3.13):
  \<^verbatim>\<open>
    i = name.rfind('.')
    if 0 < i < len(name) - 1: return name[i:]     # stem: name[:i]
    else:                     return ''           # stem: name
  \<close>
\<close>

definition py_suffix :: "string \<Rightarrow> string" where
  "py_suffix name =
     (let i = rfind name (CHR ''.'')
      in if 0 < i \<and> i < int (length name) - 1 then drop (nat i) name else [])"

definition py_stem :: "string \<Rightarrow> string" where
  "py_stem name =
     (let i = rfind name (CHR ''.'')
      in if 0 < i \<and> i < int (length name) - 1 then take (nat i) name else name)"

text \<open>\<^verbatim>\<open>s.split(sep, 1)[0]\<close>: what stands before the first \<open>sep\<close>, all of \<open>s\<close> when
  there is none.\<close>

definition split1_head :: "string \<Rightarrow> char \<Rightarrow> string" where
  "split1_head s sep = takeWhile (\<lambda>c. c \<noteq> sep) s"

subsection \<open>Facts about the decimal rendering\<close>

lemma digit_char_inj: "a < 10 \<Longrightarrow> b < 10 \<Longrightarrow> digit_char a = digit_char b \<Longrightarrow> a = b"
proof -
  assume a: "a < 10" and b: "b < 10" and e: "digit_char a = digit_char b"
  from e have "(of_char (char_of (48 + a)) :: nat) = of_char (char_of (48 + b))"
    by (simp add: digit_char_def)
  with a b show "a = b" by simp
qed

lemma format_int_small: "n < 10 \<Longrightarrow> format_int n = [digit_char n]"
  by (subst format_int.simps) simp

lemma format_int_large:
  "\<not> n < 10 \<Longrightarrow> format_int n = format_int (n div 10) @ [digit_char (n mod 10)]"
  by (subst format_int.simps) simp

lemma format_int_nonempty: "format_int n \<noteq> []"
  by (subst format_int.simps) simp

lemma format_int_inj: "format_int n = format_int m \<Longrightarrow> n = m"
proof (induction n arbitrary: m rule: format_int.induct)
  case (1 n)
  show ?case
  proof (cases "n < 10")
    case True
    have m: "m < 10"
    proof (rule ccontr)
      assume "\<not> m < 10"
      then show False
        using "1.prems" True format_int_nonempty[of "m div 10"]
        by (simp add: format_int_small format_int_large)
    qed
    with "1.prems" True show ?thesis
      by (simp add: format_int_small digit_char_inj)
  next
    case False
    have m: "\<not> m < 10"
    proof
      assume "m < 10"
      then show False
        using "1.prems" False format_int_nonempty[of "n div 10"]
        by (simp add: format_int_small format_int_large)
    qed
    with False "1.prems" have e: "format_int (n div 10) = format_int (m div 10)"
      and d: "digit_char (n mod 10) = digit_char (m mod 10)"
      by (simp_all add: format_int_large)
    from "1.IH"[OF False e] have "n div 10 = m div 10" .
    moreover from d have "n mod 10 = m mod 10" by (intro digit_char_inj) simp_all
    ultimately show ?thesis by (metis div_mult_mod_eq)
  qed
qed

lemma format_int_digits: "c \<in> set (format_int n) \<Longrightarrow> \<exists>d<10. c = digit_char d"
proof (induction n rule: format_int.induct)
  case (1 n)
  show ?case
  proof (cases "n < 10")
    case True
    with "1.prems" show ?thesis by (auto simp: format_int_small)
  next
    case False
    with "1.prems" have "c \<in> set (format_int (n div 10)) \<or> c = digit_char (n mod 10)"
      by (auto simp: format_int_large)
    then show ?thesis
    proof
      assume "c \<in> set (format_int (n div 10))"
      from "1.IH"[OF False this] show ?thesis .
    next
      assume "c = digit_char (n mod 10)"
      then show ?thesis by (intro exI[of _ "n mod 10"]) simp
    qed
  qed
qed

section \<open>The file system\<close>

text \<open>
  A \<^verbatim>\<open>Path\<close> is the list of its components. The file system is an association list from
  paths to nodes, in the order in which \<^verbatim>\<open>os.scandir\<close> lists the entries; the theorems
  hold for every order. A regular file carries its contents and a flag that says whether
  the operating system refuses to rename it (no permission, or the file is held open).
  Names are compared as they are written (a case-sensitive file system), there are no
  symbolic links, and nothing but the program changes the file system while it runs.
\<close>

type_synonym path = "string list"

datatype node = RegularFile (rename_refused: bool) (contents: string) | Directory | Special

type_synonym filesystem = "(path \<times> node) list"

datatype error = ValueError | FileNotFoundError | PermissionError | IsADirectoryError

definition path_exists :: "filesystem \<Rightarrow> path \<Rightarrow> bool" where
  "path_exists fs p = (map_of fs p \<noteq> None)"

definition is_file :: "filesystem \<Rightarrow> path \<Rightarrow> bool" where
  "is_file fs p = (case map_of fs p of Some (RegularFile _ _) \<Rightarrow> True | _ \<Rightarrow> False)"

definition is_dir :: "filesystem \<Rightarrow> path \<Rightarrow> bool" where
  "is_dir fs p = (map_of fs p = Some Directory)"

text \<open>\<^verbatim>\<open>Path.name\<close> (the last component, empty for a path with no component) and
  \<^verbatim>\<open>Path.parent\<close>.\<close>

definition path_name :: "path \<Rightarrow> string" where
  "path_name p = (if p = [] then [] else last p)"

definition path_parent :: "path \<Rightarrow> path" where
  "path_parent p = butlast p"

text \<open>\<^verbatim>\<open>directory / candidate\<close>.\<close>

definition path_join :: "path \<Rightarrow> string \<Rightarrow> path" where
  "path_join directory candidate = directory @ [candidate]"

text \<open>The names \<^verbatim>\<open>with_name\<close> accepts: not empty, no separator, not \<^verbatim>\<open>'.'\<close>.\<close>

definition valid_name :: "string \<Rightarrow> bool" where
  "valid_name n = (n \<noteq> [] \<and> CHR ''/'' \<notin> set n \<and> n \<noteq> ''.'')"

text \<open>\<^verbatim>\<open>Path.with_name(name)\<close> raises \<^verbatim>\<open>ValueError\<close> when the path has an empty name or
  the new name is invalid.\<close>

definition with_name :: "path \<Rightarrow> string \<Rightarrow> error + path" where
  "with_name p n =
     (if path_name p = [] then Inl ValueError
      else if \<not> valid_name n then Inl ValueError
      else Inr (path_join (path_parent p) n))"

text \<open>
  \<^verbatim>\<open>Path.rename(target)\<close>, that is \<^verbatim>\<open>os.rename\<close> with POSIX semantics: the source must
  exist, the operating system may refuse, a directory is not replaced by a file, and an
  existing target that is no directory is replaced. The entry keeps its place in the
  listing.
\<close>

definition rename_denied :: "node \<Rightarrow> bool" where
  "rename_denied n = (case n of RegularFile d _ \<Rightarrow> d | _ \<Rightarrow> False)"

definition os_rename :: "filesystem \<Rightarrow> path \<Rightarrow> path \<Rightarrow> error + filesystem" where
  "os_rename fs src dst =
     (case map_of fs src of
        None \<Rightarrow> Inl FileNotFoundError
      | Some n \<Rightarrow>
          if rename_denied n then Inl PermissionError
          else if is_dir fs dst then Inl IsADirectoryError
          else Inr (map (\<lambda>(p, x). if p = src then (dst, x) else (p, x))
                     (filter (\<lambda>(p, x). p \<noteq> dst \<or> p = src) fs)))"

text \<open>
  \<^verbatim>\<open>root.glob('*.conf')\<close> and \<^verbatim>\<open>root.rglob('*.conf')\<close>. A name matches \<^verbatim>\<open>*.conf\<close> when
  it ends in \<^verbatim>\<open>.conf\<close> (pathlib's \<^verbatim>\<open>*\<close> also matches an empty prefix and a leading
  dot; matching is case-sensitive, as on POSIX). \<^verbatim>\<open>glob\<close> yields the matching children
  of \<open>root\<close>, \<^verbatim>\<open>rglob\<close> the matching entries anywhere below \<open>root\<close>. Both list a
  directory in one go before they yield its entries, and the loop body only renames
  regular files inside the directory being listed, to names that did not exist; so the
  paths yielded are those a listing at the start yields.
\<close>

definition matches_conf :: "string \<Rightarrow> bool" where
  "matches_conf n = (5 \<le> length n \<and> drop (length n - 5) n = ''.conf'')"

definition glob_conf :: "filesystem \<Rightarrow> path \<Rightarrow> path list" where
  "glob_conf fs root =
     filter (\<lambda>p. p \<noteq> [] \<and> butlast p = root \<and> matches_conf (last p)) (map fst fs)"

definition rglob_conf :: "filesystem \<Rightarrow> path \<Rightarrow> path list" where
  "rglob_conf fs root =
     filter (\<lambda>p. length root < length p \<and> take (length root) p = root \<and> matches_conf (last p))
       (map fst fs)"

section \<open>The program\<close>

subsection \<open>\<^verbatim>\<open>next_available_name\<close>\<close>

text \<open>
  \<^verbatim>\<open>
  def next_available_name(directory, stem, ext):
      candidate = f"{stem}{ext}"
      i = 1
      while (directory / candidate).exists():
          candidate = f"{stem}-{i}{ext}"
          i += 1
      return candidate
  \<close>
  The loop is \<open>next_available_loop\<close> on the loop variables \<open>candidate\<close> and \<open>i\<close>;
  \<open>numbered_name\<close> is the f-string of its body. The loop terminates for every file
  system: the numbered names are pairwise different and the file system is finite.
\<close>

definition numbered_name :: "string \<Rightarrow> nat \<Rightarrow> string \<Rightarrow> string" where
  "numbered_name stem i ext = stem @ ''-'' @ format_int i @ ext"

lemma numbered_name_inj: "numbered_name stem i ext = numbered_name stem j ext \<Longrightarrow> i = j"
  by (simp add: numbered_name_def format_int_inj)

lemma path_exists_iff: "path_exists fs p \<longleftrightarrow> p \<in> fst ` set fs"
  by (simp add: path_exists_def map_of_eq_None_iff)

lemma finite_taken: "finite {j. path_exists fs (path_join directory (numbered_name stem j ext))}"
proof -
  let ?h = "\<lambda>j. path_join directory (numbered_name stem j ext)"
  have "inj ?h" by (rule injI) (simp add: path_join_def numbered_name_inj)
  then have "finite (?h -` (fst ` set fs))" by (intro finite_vimageI) simp_all
  then show ?thesis by (simp add: path_exists_iff vimage_def)
qed

function next_available_loop ::
  "filesystem \<Rightarrow> path \<Rightarrow> string \<Rightarrow> string \<Rightarrow> string \<Rightarrow> nat \<Rightarrow> string" where
  "next_available_loop fs directory stem ext candidate i =
     (if path_exists fs (path_join directory candidate)
      then next_available_loop fs directory stem ext (numbered_name stem i ext) (i + 1)
      else candidate)"
  by pat_completeness auto
termination
proof (relation "measure (\<lambda>(fs, directory, stem, ext, candidate, i).
    if path_exists fs (path_join directory candidate)
    then Suc (card {j. i \<le> j \<and> path_exists fs (path_join directory (numbered_name stem j ext))})
    else 0)")
  show "wf (measure (\<lambda>(fs, directory, stem, ext, candidate, i).
    if path_exists fs (path_join directory candidate)
    then Suc (card {j. i \<le> j \<and> path_exists fs (path_join directory (numbered_name stem j ext))})
    else 0))" by simp
next
  fix fs :: filesystem and directory :: path and stem ext candidate :: string and i :: nat
  assume ex: "path_exists fs (path_join directory candidate)"
  let ?S = "\<lambda>k. {j. k \<le> j \<and> path_exists fs (path_join directory (numbered_name stem j ext))}"
  have fin: "finite (?S i)" using finite_taken[of fs directory stem ext] by simp
  have "path_exists fs (path_join directory (numbered_name stem i ext)) \<Longrightarrow> card (?S (i + 1)) < card (?S i)"
  proof -
    assume "path_exists fs (path_join directory (numbered_name stem i ext))"
    then have "i \<in> ?S i" and "i \<notin> ?S (i + 1)" by simp_all
    moreover have "?S (i + 1) \<subseteq> ?S i" by auto
    ultimately have "?S (i + 1) \<subset> ?S i" by blast
    with fin show ?thesis by (rule psubset_card_mono)
  qed
  with ex show "((fs, directory, stem, ext, numbered_name stem i ext, i + 1),
         (fs, directory, stem, ext, candidate, i))
        \<in> measure (\<lambda>(fs, directory, stem, ext, candidate, i).
    if path_exists fs (path_join directory candidate)
    then Suc (card {j. i \<le> j \<and> path_exists fs (path_join directory (numbered_name stem j ext))})
    else 0)" by simp
qed

declare next_available_loop.simps [simp del]

definition next_available_name :: "filesystem \<Rightarrow> path \<Rightarrow> string \<Rightarrow> string \<Rightarrow> string" where
  "next_available_name fs directory stem ext =
     next_available_loop fs directory stem ext (stem @ ext) 1"


subsection \<open>\<^verbatim>\<open>compute_target_name\<close>\<close>

definition compute_target_name :: "path \<Rightarrow> string option" where
  "compute_target_name src =
     (let base = py_stem (path_name src);
          pre = split1_head base (CHR ''@'')
      in if pre = base then None else Some (pre @ py_suffix (path_name src)))"

subsection \<open>\<^verbatim>\<open>rename_in_directory\<close>\<close>

text \<open>The world the program acts on: the file system and the lines printed so far.\<close>

record world =
  files :: filesystem
  stdout :: "string list"
  stderr :: "string list"

definition print_line :: "string \<Rightarrow> world \<Rightarrow> world" where
  "print_line l w = w\<lparr>stdout := stdout w @ [l]\<rparr>"

text \<open>
  The target of one file (the loop body from \<^verbatim>\<open>target = file.with_name(target_basename)\<close>
  to the call of \<^verbatim>\<open>next_available_name\<close>):
  \<^verbatim>\<open>
      target = file.with_name(target_basename)
      if target.exists():
          stem = target.stem
          ext = target.suffix
          target = file.with_name(next_available_name(file.parent, stem, ext))
  \<close>
\<close>

definition choose_target :: "filesystem \<Rightarrow> path \<Rightarrow> string \<Rightarrow> error + path" where
  "choose_target fs file target_basename =
     (case with_name file target_basename of
        Inl e \<Rightarrow> Inl e
      | Inr target \<Rightarrow>
          if path_exists fs target
          then (let stem = py_stem (path_name target);
                    ext = py_suffix (path_name target)
                in with_name file (next_available_name fs (path_parent file) stem ext))
          else Inr target)"

definition dry_run_line :: "path \<Rightarrow> path \<Rightarrow> string" where
  "dry_run_line file target = ''[DRY-RUN] '' @ path_name file @ '' -> '' @ path_name target"

definition renamed_line :: "path \<Rightarrow> path \<Rightarrow> string" where
  "renamed_line file target = ''Renamed: '' @ path_name file @ '' -> '' @ path_name target"

text \<open>
  The \<^verbatim>\<open>for file in it\<close> loop, on the paths still to come, the world and the two
  counters. An exception ends the run: the result is then \<open>Inl\<close> of the exception, the
  counters and the world at the moment it was raised.
\<close>

type_synonym run_result = "(error \<times> nat \<times> nat \<times> world) + (nat \<times> nat \<times> world)"

fun rename_loop :: "bool \<Rightarrow> path list \<Rightarrow> world \<Rightarrow> nat \<Rightarrow> nat \<Rightarrow> run_result" where
  "rename_loop dry_run [] w renamed skipped = Inr (renamed, skipped, w)"
| "rename_loop dry_run (file # it) w renamed skipped =
     (if \<not> is_file (files w) file then rename_loop dry_run it w renamed skipped
      else case compute_target_name file of
        None \<Rightarrow> rename_loop dry_run it w renamed (skipped + 1)
      | Some target_basename \<Rightarrow>
          (case choose_target (files w) file target_basename of
             Inl e \<Rightarrow> Inl (e, renamed, skipped, w)
           | Inr target \<Rightarrow>
               if dry_run
               then rename_loop dry_run it (print_line (dry_run_line file target) w)
                      (renamed + 1) skipped
               else (case os_rename (files w) file target of
                       Inl e \<Rightarrow> Inl (e, renamed, skipped, w)
                     | Inr fs' \<Rightarrow>
                         rename_loop dry_run it
                           (print_line (renamed_line file target) (w\<lparr>files := fs'\<rparr>))
                           (renamed + 1) skipped)))"

definition rename_in_directory :: "path \<Rightarrow> bool \<Rightarrow> bool \<Rightarrow> world \<Rightarrow> run_result" where
  "rename_in_directory root recursive dry_run w =
     (let it = (if recursive then rglob_conf (files w) root else glob_conf (files w) root)
      in rename_loop dry_run it w 0 0)"

subsection \<open>\<^verbatim>\<open>main\<close>\<close>

text \<open>
  The parsed command line (\<^verbatim>\<open>args = p.parse_args(argv)\<close>, with \<^verbatim>\<open>Path(args.path)\<close>
  already taken) and what \<^verbatim>\<open>main\<close> does with it. \<^verbatim>\<open>main\<close> returns an exit status, or an
  exception of \<^verbatim>\<open>rename_in_directory\<close> passes through it: nothing catches it.
\<close>

record args =
  path :: path
  recursive :: bool
  dry_run :: bool

datatype outcome = Return int | Raise error

text \<open>\<^verbatim>\<open>str(root)\<close>.\<close>

fun path_str :: "path \<Rightarrow> string" where
  "path_str [] = ''.''"
| "path_str [c] = c"
| "path_str (c # cs) = c @ ''/'' @ path_str cs"

definition not_a_directory_line :: "path \<Rightarrow> string" where
  "not_a_directory_line root = ''Error: '' @ [CHR 0x27] @ path_str root @ [CHR 0x27] @ '' is not a directory''"

definition summary_line :: "bool \<Rightarrow> nat \<Rightarrow> nat \<Rightarrow> string" where
  "summary_line dry renamed skipped =
     (if dry then ''Dry-run complete.'' else ''Done.'') @ '' Renamed: '' @ format_int renamed
       @ ''; Unchanged: '' @ format_int skipped @ ''.''"

definition main :: "args \<Rightarrow> world \<Rightarrow> outcome \<times> world" where
  "main a w =
     (let root = path a in
      if \<not> is_dir (files w) root
      then (Return 1, w\<lparr>stderr := stderr w @ [not_a_directory_line root]\<rparr>)
      else (case rename_in_directory root (recursive a) (dry_run a) w of
              Inl (e, renamed, skipped, w') \<Rightarrow> (Raise e, w')
            | Inr (renamed, skipped, w') \<Rightarrow>
                (Return 0, print_line (summary_line (dry_run a) renamed skipped) w')))"

section \<open>Facts about names\<close>

lemma rfind_last: "c \<notin> set ys \<Longrightarrow> rfind (xs @ c # ys) c = int (length xs)"
proof -
  assume n: "c \<notin> set ys"
  have "takeWhile (\<lambda>x. x \<noteq> c) (rev ys @ c # rev xs) = rev ys"
    using n by (auto simp: takeWhile_tail)
  then show ?thesis by (simp add: rfind_def)
qed

lemma stem_suffix_name: "py_stem n @ py_suffix n = n"
  by (simp add: py_stem_def py_suffix_def Let_def)

lemma matches_conf_iff: "matches_conf n \<longleftrightarrow> (\<exists>s. n = s @ ''.conf'')"
proof
  assume m: "matches_conf n"
  then have d: "drop (length n - 5) n = ''.conf''" unfolding matches_conf_def by (rule conjunct2)
  have "n = take (length n - 5) n @ drop (length n - 5) n" by simp
  then have "n = take (length n - 5) n @ ''.conf''" unfolding d .
  then show "\<exists>s. n = s @ ''.conf''" by (rule exI[of "\<lambda>s. n = s @ ''.conf''" "take (length n - 5) n"])
next
  assume "\<exists>s. n = s @ ''.conf''"
  then obtain s where n: "n = s @ ''.conf''" by (rule exE)
  then show "matches_conf n" by (simp add: matches_conf_def)
qed

lemma py_suffix_conf: "s \<noteq> [] \<Longrightarrow> py_suffix (s @ ''.conf'') = ''.conf''"
proof -
  assume s: "s \<noteq> []"
  have "rfind (s @ CHR ''.'' # ''conf'') (CHR ''.'') = int (length s)"
    by (rule rfind_last) simp
  with s show ?thesis by (simp add: py_suffix_def Let_def)
qed

lemma py_stem_conf: "s \<noteq> [] \<Longrightarrow> py_stem (s @ ''.conf'') = s"
proof -
  assume s: "s \<noteq> []"
  have "rfind (s @ CHR ''.'' # ''conf'') (CHR ''.'') = int (length s)"
    by (rule rfind_last) simp
  with s show ?thesis by (simp add: py_stem_def Let_def)
qed

lemma split1_head_all: "split1_head s c = s \<longleftrightarrow> c \<notin> set s"
  by (auto simp: split1_head_def takeWhile_eq_all_conv)

lemma split1_head_first: "c \<notin> set pre \<Longrightarrow> split1_head (pre @ c # rest) c = pre"
  by (auto simp: split1_head_def takeWhile_tail)

lemma split1_head_no_sep: "c \<notin> set (split1_head s c)"
  by (auto simp: split1_head_def dest: set_takeWhileD)

lemma path_name_join: "path_name (path_join d n) = n"
  by (simp add: path_name_def path_join_def)

lemma next_available_loop_free:
  "\<not> path_exists fs (path_join directory candidate) \<Longrightarrow>
   next_available_loop fs directory stem ext candidate i = candidate"
  by (subst next_available_loop.simps) simp

lemma next_available_loop_taken:
  "path_exists fs (path_join directory candidate) \<Longrightarrow>
   next_available_loop fs directory stem ext candidate i =
   next_available_loop fs directory stem ext (numbered_name stem i ext) (i + 1)"
  by (subst next_available_loop.simps) simp

lemma next_available_loop_least:
  "path_exists fs (path_join directory candidate) \<Longrightarrow>
   (\<And>j. k \<le> j \<Longrightarrow> j < i \<Longrightarrow> path_exists fs (path_join directory (numbered_name stem j ext))) \<Longrightarrow>
   \<exists>m\<ge>i. next_available_loop fs directory stem ext candidate i = numbered_name stem m ext
       \<and> \<not> path_exists fs (path_join directory (numbered_name stem m ext))
       \<and> (\<forall>j. k \<le> j \<and> j < m \<longrightarrow> path_exists fs (path_join directory (numbered_name stem j ext)))"
proof (induction fs directory stem ext candidate i rule: next_available_loop.induct)
  case (1 fs directory stem ext candidate i)
  let ?c = "numbered_name stem i ext"
  show ?case
  proof (cases "path_exists fs (path_join directory ?c)")
    case False
    have "next_available_loop fs directory stem ext candidate i = ?c"
      using "1.prems"(1) False by (simp add: next_available_loop_taken next_available_loop_free)
    with False "1.prems"(2) show ?thesis by (intro exI[of _ i]) simp
  next
    case True
    have "\<And>j. k \<le> j \<Longrightarrow> j < i + 1 \<Longrightarrow> path_exists fs (path_join directory (numbered_name stem j ext))"
    proof -
      fix j assume "k \<le> j" "j < i + 1"
      then show "path_exists fs (path_join directory (numbered_name stem j ext))"
        using "1.prems"(2)[of j] True by (cases "j = i") simp_all
    qed
    from "1.IH"[OF "1.prems"(1) True this]
    obtain m where m: "m \<ge> i + 1"
      "next_available_loop fs directory stem ext ?c (i + 1) = numbered_name stem m ext"
      "\<not> path_exists fs (path_join directory (numbered_name stem m ext))"
      "\<forall>j. k \<le> j \<and> j < m \<longrightarrow> path_exists fs (path_join directory (numbered_name stem j ext))"
      by blast
    show ?thesis
      using m "1.prems"(1) by (intro exI[of _ m]) (simp add: next_available_loop_taken)
  qed
qed

lemma next_available_name_least:
  assumes "path_exists fs (path_join directory (stem @ ext))"
  shows "\<exists>m\<ge>1. next_available_name fs directory stem ext = numbered_name stem m ext
       \<and> \<not> path_exists fs (path_join directory (numbered_name stem m ext))
       \<and> (\<forall>j. 1 \<le> j \<and> j < m \<longrightarrow> path_exists fs (path_join directory (numbered_name stem j ext)))"
  unfolding next_available_name_def
  by (rule next_available_loop_least[OF assms]) simp

lemma next_available_name_free:
  "\<not> path_exists fs (path_join directory (stem @ ext)) \<Longrightarrow>
   next_available_name fs directory stem ext = stem @ ext"
  by (simp add: next_available_name_def next_available_loop_free)

lemma of_char_digit: "d < 10 \<Longrightarrow> (of_char (digit_char d) :: nat) = 48 + d"
  by (simp add: digit_char_def)

lemma digit_char_not_slash: "d < 10 \<Longrightarrow> digit_char d \<noteq> CHR ''/''"
proof
  assume d: "d < 10" and e: "digit_char d = CHR ''/''"
  have "(of_char (digit_char d) :: nat) = 47" unfolding e by simp
  with of_char_digit[OF d] show False by simp
qed

lemma digit_char_not_at: "d < 10 \<Longrightarrow> digit_char d \<noteq> CHR ''@''"
proof
  assume d: "d < 10" and e: "digit_char d = CHR ''@''"
  have "(of_char (digit_char d) :: nat) = 64" unfolding e by simp
  with of_char_digit[OF d] d show False by simp
qed

lemma set_py_stem: "set (py_stem n) \<subseteq> set n"
  by (auto simp: py_stem_def Let_def dest: in_set_takeD)

lemma set_py_suffix: "set (py_suffix n) \<subseteq> set n"
  by (auto simp: py_suffix_def Let_def dest: in_set_dropD)

lemma set_split1_head: "set (split1_head s c) \<subseteq> set s"
  by (auto simp: split1_head_def dest: set_takeWhileD)

lemma numbered_name_chars:
  assumes "c \<in> set (numbered_name stem m ext)"
  shows "c \<in> set stem \<or> c \<in> set ext \<or> c = CHR ''-'' \<or> (\<exists>d<10. c = digit_char d)"
  using assms format_int_digits[of c m] by (auto simp: numbered_name_def)

lemma numbered_name_valid:
  assumes "CHR ''/'' \<notin> set stem" and "CHR ''/'' \<notin> set ext"
  shows "valid_name (numbered_name stem m ext)"
proof -
  have "CHR ''/'' \<notin> set (numbered_name stem m ext)"
  proof
    assume "CHR ''/'' \<in> set (numbered_name stem m ext)"
    from numbered_name_chars[OF this] assms
    obtain d where "d < 10" "CHR ''/'' = digit_char d" by auto
    then show False using digit_char_not_slash[of d] by simp
  qed
  moreover have "CHR ''-'' \<in> set (numbered_name stem m ext)" by (simp add: numbered_name_def)
  then have "numbered_name stem m ext \<noteq> []" and "numbered_name stem m ext \<noteq> ''.''" by auto
  ultimately show ?thesis by (simp add: valid_name_def)
qed

lemma numbered_name_no_at:
  assumes "CHR ''@'' \<notin> set stem" and "CHR ''@'' \<notin> set ext"
  shows "CHR ''@'' \<notin> set (numbered_name stem m ext)"
proof
  assume "CHR ''@'' \<in> set (numbered_name stem m ext)"
  from numbered_name_chars[OF this] assms
  obtain d where "d < 10" "CHR ''@'' = digit_char d" by auto
  then show False using digit_char_not_at[of d] by simp
qed

lemma compute_target_name_no_at:
  "CHR ''@'' \<notin> set (path_name p) \<Longrightarrow> compute_target_name p = None"
  using set_py_stem[of "path_name p"]
  by (auto simp: compute_target_name_def Let_def split1_head_all)

lemma compute_target_name_conf:
  assumes m: "matches_conf (path_name p)" and c: "compute_target_name p = Some t"
  shows "t = split1_head (py_stem (path_name p)) (CHR ''@'') @ ''.conf''"
proof -
  from m obtain s where n: "path_name p = s @ ''.conf''" unfolding matches_conf_iff by (rule exE)
  have "s \<noteq> []"
  proof
    assume "s = []"
    then have "CHR ''@'' \<notin> set (path_name p)" unfolding n by simp
    then show False using c by (simp add: compute_target_name_no_at)
  qed
  then have "py_suffix (path_name p) = ''.conf''" unfolding n by (rule py_suffix_conf)
  with c show ?thesis by (simp add: compute_target_name_def Let_def split: if_splits)
qed

lemma compute_target_name_valid:
  assumes m: "matches_conf (path_name p)" and c: "compute_target_name p = Some t"
    and v: "valid_name (path_name p)"
  shows "valid_name t" and "CHR ''@'' \<notin> set t"
proof -
  let ?pre = "split1_head (py_stem (path_name p)) (CHR ''@'')"
  have t: "t = ?pre @ ''.conf''" using m c by (rule compute_target_name_conf)
  have "set ?pre \<subseteq> set (path_name p)"
    using set_split1_head[of "py_stem (path_name p)" "CHR ''@''"] set_py_stem[of "path_name p"] by blast
  with v have "CHR ''/'' \<notin> set ?pre" by (auto simp: valid_name_def)
  then show "valid_name t" unfolding t by (simp add: valid_name_def)
  show "CHR ''@'' \<notin> set t" unfolding t using split1_head_no_sep[of "CHR ''@''" "py_stem (path_name p)"] by simp
qed

lemma path_parent_join: "path_parent (path_join d n) = d"
  by (simp add: path_parent_def path_join_def)

lemma with_name_valid:
  "valid_name (path_name file) \<Longrightarrow> valid_name n \<Longrightarrow>
   with_name file n = Inr (path_join (path_parent file) n)"
  by (simp add: with_name_def valid_name_def)

lemma choose_target_free:
  assumes "valid_name (path_name file)" and "valid_name t"
    and "\<not> path_exists fs (path_join (path_parent file) t)"
  shows "choose_target fs file t = Inr (path_join (path_parent file) t)"
  using assms by (simp add: choose_target_def with_name_valid)

lemma choose_target_taken:
  assumes vf: "valid_name (path_name file)" and vt: "valid_name t"
    and ex: "path_exists fs (path_join (path_parent file) t)"
  shows "\<exists>m\<ge>1. choose_target fs file t
            = Inr (path_join (path_parent file) (numbered_name (py_stem t) m (py_suffix t)))
       \<and> \<not> path_exists fs (path_join (path_parent file) (numbered_name (py_stem t) m (py_suffix t)))
       \<and> (\<forall>j. 1 \<le> j \<and> j < m \<longrightarrow>
             path_exists fs (path_join (path_parent file) (numbered_name (py_stem t) j (py_suffix t))))"
proof -
  let ?d = "path_parent file"
  have "path_exists fs (path_join ?d (py_stem t @ py_suffix t))" using ex by (simp add: stem_suffix_name)
  from next_available_name_least[OF this]
  obtain m where m: "m \<ge> 1"
    "next_available_name fs ?d (py_stem t) (py_suffix t) = numbered_name (py_stem t) m (py_suffix t)"
    "\<not> path_exists fs (path_join ?d (numbered_name (py_stem t) m (py_suffix t)))"
    "\<forall>j. 1 \<le> j \<and> j < m \<longrightarrow> path_exists fs (path_join ?d (numbered_name (py_stem t) j (py_suffix t)))"
    by blast
  have "CHR ''/'' \<notin> set (py_stem t)" "CHR ''/'' \<notin> set (py_suffix t)"
    using vt set_py_stem[of t] set_py_suffix[of t] by (auto simp: valid_name_def)
  then have "valid_name (numbered_name (py_stem t) m (py_suffix t))" by (rule numbered_name_valid)
  then have "choose_target fs file t = Inr (path_join ?d (numbered_name (py_stem t) m (py_suffix t)))"
    using vf vt ex m(2) by (simp add: choose_target_def with_name_valid Let_def path_name_join)
  with m show ?thesis by (intro exI[of _ m]) simp
qed

text \<open>What every chosen target has in common.\<close>

lemma choose_target_fresh:
  assumes vf: "valid_name (path_name file)" and vt: "valid_name t" and na: "CHR ''@'' \<notin> set t"
  shows "\<exists>target. choose_target fs file t = Inr target \<and> \<not> path_exists fs target
       \<and> path_parent target = path_parent file \<and> valid_name (path_name target)
       \<and> CHR ''@'' \<notin> set (path_name target)"
proof (cases "path_exists fs (path_join (path_parent file) t)")
  case False
  with vf vt na show ?thesis
    by (simp add: choose_target_free path_parent_join path_name_join)
next
  case True
  from choose_target_taken[OF vf vt True]
  obtain m where m: "choose_target fs file t
        = Inr (path_join (path_parent file) (numbered_name (py_stem t) m (py_suffix t)))"
    "\<not> path_exists fs (path_join (path_parent file) (numbered_name (py_stem t) m (py_suffix t)))"
    by blast
  have "CHR ''/'' \<notin> set (py_stem t)" "CHR ''/'' \<notin> set (py_suffix t)"
    using vt set_py_stem[of t] set_py_suffix[of t] by (auto simp: valid_name_def)
  then have v: "valid_name (numbered_name (py_stem t) m (py_suffix t))" by (rule numbered_name_valid)
  have "CHR ''@'' \<notin> set (py_stem t)" "CHR ''@'' \<notin> set (py_suffix t)"
    using na set_py_stem[of t] set_py_suffix[of t] by auto
  then have "CHR ''@'' \<notin> set (numbered_name (py_stem t) m (py_suffix t))" by (rule numbered_name_no_at)
  with m v show ?thesis by (simp add: path_parent_join path_name_join)
qed

section \<open>Facts about the file system\<close>

text \<open>\<open>refuses fs p\<close>: the operating system refuses to rename the entry at \<open>p\<close>.\<close>

definition refuses :: "filesystem \<Rightarrow> path \<Rightarrow> bool" where
  "refuses fs p = (case map_of fs p of Some n \<Rightarrow> rename_denied n | None \<Rightarrow> False)"

lemma is_file_exists: "is_file fs p \<Longrightarrow> path_exists fs p"
  by (auto simp: is_file_def path_exists_def split: option.splits)

lemma filter_absent:
  "dst \<notin> fst ` set fs \<Longrightarrow> filter (\<lambda>(p, x). p = dst \<longrightarrow> dst = src) fs = fs"
  by (induction fs) auto

lemma map_of_relabel:
  "dst \<notin> fst ` set fs \<Longrightarrow>
   map_of (map (\<lambda>(p, x). if p = src then (dst, x) else (p, x)) fs) q =
   (if q = dst then map_of fs src else if q = src then None else map_of fs q)"
  by (induction fs) (auto simp: image_iff)

lemma keys_relabel:
  "map fst (map (\<lambda>(p, x). if p = src then (dst, x) else (p, x)) fs) =
   map (\<lambda>p. if p = src then dst else p) (map fst fs)"
  by (induction fs) auto

lemma os_rename_refused:
  "is_file fs src \<Longrightarrow> refuses fs src \<Longrightarrow> os_rename fs src dst = Inl PermissionError"
  by (auto simp: os_rename_def refuses_def is_file_def split: option.splits)

lemma os_rename_done:
  assumes f: "is_file fs src" and n: "\<not> refuses fs src" and d: "\<not> path_exists fs dst"
  shows "os_rename fs src dst = Inr (map (\<lambda>(p, x). if p = src then (dst, x) else (p, x)) fs)"
proof -
  from d have k: "dst \<notin> fst ` set fs" by (simp add: path_exists_iff)
  from d have "\<not> is_dir fs dst" by (simp add: path_exists_def is_dir_def)
  with f n show ?thesis
    by (auto simp: os_rename_def refuses_def is_file_def filter_absent[OF k] split: option.splits)
qed

lemma os_rename_lookup:
  assumes f: "is_file fs src" and n: "\<not> refuses fs src" and d: "\<not> path_exists fs dst"
    and r: "os_rename fs src dst = Inr fs'"
  shows "map_of fs' q = (if q = dst then map_of fs src else if q = src then None else map_of fs q)"
proof -
  from d have k: "dst \<notin> fst ` set fs" by (simp add: path_exists_iff)
  from r os_rename_done[OF f n d]
  have "fs' = map (\<lambda>(p, x). if p = src then (dst, x) else (p, x)) fs" by simp
  then show ?thesis using map_of_relabel[OF k] by simp
qed

lemma os_rename_distinct:
  assumes f: "is_file fs src" and n: "\<not> refuses fs src" and d: "\<not> path_exists fs dst"
    and r: "os_rename fs src dst = Inr fs'" and dis: "distinct (map fst fs)"
  shows "distinct (map fst fs')"
proof -
  from d have k: "dst \<notin> set (map fst fs)" by (simp add: path_exists_iff)
  from r os_rename_done[OF f n d]
  have "fs' = map (\<lambda>(p, x). if p = src then (dst, x) else (p, x)) fs" by simp
  then have "map fst fs' = map (\<lambda>p. if p = src then dst else p) (map fst fs)"
    by (simp only: keys_relabel)
  moreover have "inj_on (\<lambda>p. if p = src then dst else p) (set (map fst fs))"
    using k by (auto simp: inj_on_def)
  ultimately show ?thesis using dis by (simp add: distinct_map del: map_map)
qed

lemma files_print_line [simp]: "files (print_line l w) = files w"
  and stdout_print_line [simp]: "stdout (print_line l w) = stdout w @ [l]"
  and stderr_print_line [simp]: "stderr (print_line l w) = stderr w"
  by (simp_all add: print_line_def)

section \<open>Facts about the loop\<close>

text \<open>
  \<open>listing_ok fs it\<close>: what \<^verbatim>\<open>glob\<close> and \<^verbatim>\<open>rglob\<close> yield on a file system with sound
  names: pairwise different paths of \<open>fs\<close> whose names match \<^verbatim>\<open>*.conf\<close>.
  \<open>to_rename\<close> and \<open>unchanged\<close> are the regular files of a listing whose stem holds,
  and does not hold, an \<^verbatim>\<open>@\<close>.
\<close>

definition listing_ok :: "filesystem \<Rightarrow> path list \<Rightarrow> bool" where
  "listing_ok fs it =
     (distinct it \<and>
      list_all (\<lambda>p. path_exists fs p \<and> matches_conf (path_name p) \<and> valid_name (path_name p)) it)"

definition to_rename :: "filesystem \<Rightarrow> path list \<Rightarrow> path list" where
  "to_rename fs it = filter (\<lambda>p. is_file fs p \<and> compute_target_name p \<noteq> None) it"

definition unchanged :: "filesystem \<Rightarrow> path list \<Rightarrow> path list" where
  "unchanged fs it = filter (\<lambda>p. is_file fs p \<and> compute_target_name p = None) it"

lemma listing_ok_Nil [simp]: "listing_ok fs []"
  by (simp add: listing_ok_def)

lemma listing_ok_Cons:
  "listing_ok fs (f # it) \<longleftrightarrow>
     f \<notin> set it \<and> path_exists fs f \<and> matches_conf (path_name f) \<and> valid_name (path_name f)
     \<and> listing_ok fs it"
  by (auto simp: listing_ok_def)

lemma listing_ok_D:
  "listing_ok fs it \<Longrightarrow> p \<in> set it \<Longrightarrow>
   path_exists fs p \<and> matches_conf (path_name p) \<and> valid_name (path_name p)"
  by (simp add: listing_ok_def list_all_iff)

lemma listing_ok_same:
  assumes "listing_ok fs it" and "\<And>p. p \<in> set it \<Longrightarrow> map_of fs' p = map_of fs p"
  shows "listing_ok fs' it"
  using assms by (simp add: listing_ok_def list_all_iff path_exists_def)

lemma rename_loop_not_file:
  "\<not> is_file (files w) f \<Longrightarrow>
   rename_loop dry (f # it) w r s = rename_loop dry it w r s"
  by simp

lemma rename_loop_unchanged:
  "is_file (files w) f \<Longrightarrow> compute_target_name f = None \<Longrightarrow>
   rename_loop dry (f # it) w r s = rename_loop dry it w r (s + 1)"
  by simp

lemma rename_loop_planned:
  "is_file (files w) f \<Longrightarrow> compute_target_name f = Some t \<Longrightarrow>
   choose_target (files w) f t = Inr target \<Longrightarrow>
   rename_loop True (f # it) w r s =
   rename_loop True it (print_line (dry_run_line f target) w) (r + 1) s"
  by simp

lemma rename_loop_refused:
  "is_file (files w) f \<Longrightarrow> compute_target_name f = Some t \<Longrightarrow>
   choose_target (files w) f t = Inr target \<Longrightarrow> os_rename (files w) f target = Inl e \<Longrightarrow>
   rename_loop False (f # it) w r s = Inl (e, r, s, w)"
  by simp

lemma rename_loop_renamed:
  "is_file (files w) f \<Longrightarrow> compute_target_name f = Some t \<Longrightarrow>
   choose_target (files w) f t = Inr target \<Longrightarrow> os_rename (files w) f target = Inr fs' \<Longrightarrow>
   rename_loop False (f # it) w r s =
   rename_loop False it (print_line (renamed_line f target) (w\<lparr>files := fs'\<rparr>)) (r + 1) s"
  by simp

text \<open>The target of a listed file: it is chosen without error, does not exist yet, and
  holds no \<^verbatim>\<open>@\<close>.\<close>

lemma listed_target:
  assumes ok: "listing_ok fs (f # it)" and c: "compute_target_name f = Some t"
  shows "\<exists>target. choose_target fs f t = Inr target \<and> \<not> path_exists fs target
       \<and> path_parent target = path_parent f \<and> valid_name (path_name target)
       \<and> CHR ''@'' \<notin> set (path_name target)"
proof -
  from ok have m: "matches_conf (path_name f)" and v: "valid_name (path_name f)"
    by (simp_all add: listing_ok_Cons)
  from compute_target_name_valid[OF m c v] have "valid_name t" "CHR ''@'' \<notin> set t" .
  with v show ?thesis by (intro choose_target_fresh)
qed

text \<open>A rename leaves the rest of the listing as it was.\<close>

lemma renamed_rest:
  assumes ok: "listing_ok fs (f # it)" and fl: "is_file fs f" and n: "\<not> refuses fs f"
    and d: "\<not> path_exists fs target" and r: "os_rename fs f target = Inr fs'"
    and p: "p \<in> set it"
  shows "map_of fs' p = map_of fs p"
proof -
  from ok p have "p \<noteq> f" and "path_exists fs p"
    by (auto simp: listing_ok_Cons dest: listing_ok_D)
  with d have "p \<noteq> target" by auto
  with \<open>p \<noteq> f\<close> show ?thesis using os_rename_lookup[OF fl n d r, of p] by simp
qed

text \<open>
  Induction over the loop on a sound listing: one case per path through the loop body,
  each with the facts that hold on that path.
\<close>

lemma rename_loop_induct [consumes 1, case_names Done NotFile Unchanged Planned Refused Renamed]:
  assumes ok: "listing_ok (files w) it"
    and Done: "\<And>w r s. P [] w r s"
    and NotFile: "\<And>f it w r s.
      \<lbrakk>listing_ok (files w) (f # it); \<not> is_file (files w) f;
       rename_loop dry (f # it) w r s = rename_loop dry it w r s;
       P it w r s\<rbrakk> \<Longrightarrow> P (f # it) w r s"
    and Unchanged: "\<And>f it w r s.
      \<lbrakk>listing_ok (files w) (f # it); is_file (files w) f; compute_target_name f = None;
       rename_loop dry (f # it) w r s = rename_loop dry it w r (s + 1);
       P it w r (s + 1)\<rbrakk> \<Longrightarrow> P (f # it) w r s"
    and Planned: "\<And>f it w r s t target.
      \<lbrakk>dry; listing_ok (files w) (f # it); is_file (files w) f; compute_target_name f = Some t;
       choose_target (files w) f t = Inr target; \<not> path_exists (files w) target;
       CHR ''@'' \<notin> set (path_name target);
       rename_loop dry (f # it) w r s =
         rename_loop dry it (print_line (dry_run_line f target) w) (r + 1) s;
       P it (print_line (dry_run_line f target) w) (r + 1) s\<rbrakk> \<Longrightarrow> P (f # it) w r s"
    and Refused: "\<And>f it w r s t target.
      \<lbrakk>\<not> dry; listing_ok (files w) (f # it); is_file (files w) f; compute_target_name f = Some t;
       choose_target (files w) f t = Inr target; \<not> path_exists (files w) target;
       refuses (files w) f; os_rename (files w) f target = Inl PermissionError;
       rename_loop dry (f # it) w r s = Inl (PermissionError, r, s, w)\<rbrakk> \<Longrightarrow> P (f # it) w r s"
    and Renamed: "\<And>f it w r s t target fs'.
      \<lbrakk>\<not> dry; listing_ok (files w) (f # it); is_file (files w) f; compute_target_name f = Some t;
       choose_target (files w) f t = Inr target; \<not> path_exists (files w) target;
       CHR ''@'' \<notin> set (path_name target);
       \<not> refuses (files w) f; os_rename (files w) f target = Inr fs';
       \<And>q. map_of fs' q =
         (if q = target then map_of (files w) f else if q = f then None else map_of (files w) q);
       \<And>p. p \<in> set it \<Longrightarrow> map_of fs' p = map_of (files w) p;
       listing_ok fs' it;
       rename_loop dry (f # it) w r s =
         rename_loop dry it (print_line (renamed_line f target) (w\<lparr>files := fs'\<rparr>)) (r + 1) s;
       P it (print_line (renamed_line f target) (w\<lparr>files := fs'\<rparr>)) (r + 1) s\<rbrakk>
      \<Longrightarrow> P (f # it) w r s"
  shows "P it w r s"
  using ok
proof (induction it arbitrary: w r s)
  case Nil
  show ?case by (rule Done)
next
  case (Cons f it w r s)
  note ok = Cons.prems
  then have ok': "listing_ok (files w) it" by (simp add: listing_ok_Cons)
  show ?case
  proof (cases "is_file (files w) f")
    case False
    then show ?thesis
      by (intro NotFile ok Cons.IH ok' rename_loop_not_file)
  next
    case fl: True
    show ?thesis
    proof (cases "compute_target_name f")
      case None
      with fl show ?thesis
        by (intro Unchanged ok Cons.IH ok' rename_loop_unchanged)
    next
      case (Some t)
      from listed_target[OF ok Some]
      obtain target where c: "choose_target (files w) f t = Inr target"
        and d: "\<not> path_exists (files w) target"
        and a: "CHR ''@'' \<notin> set (path_name target)" by blast
      show ?thesis
      proof (cases dry)
        case True
        have e: "rename_loop dry (f # it) w r s =
            rename_loop dry it (print_line (dry_run_line f target) w) (r + 1) s"
          using True rename_loop_planned[OF fl Some c] by simp
        have "listing_ok (files (print_line (dry_run_line f target) w)) it" using ok' by simp
        then have "P it (print_line (dry_run_line f target) w) (r + 1) s" by (rule Cons.IH)
        with True ok fl Some c d a e show ?thesis by (rule Planned)
      next
        case real: False
        show ?thesis
        proof (cases "refuses (files w) f")
          case True
          with fl have o: "os_rename (files w) f target = Inl PermissionError"
            by (intro os_rename_refused)
          have "rename_loop dry (f # it) w r s = Inl (PermissionError, r, s, w)"
            using real rename_loop_refused[OF fl Some c o] by simp
          with real ok fl Some c d True o show ?thesis by (rule Refused)
        next
          case n: False
          let ?fs = "map (\<lambda>(p, x). if p = f then (target, x) else (p, x)) (files w)"
          have o: "os_rename (files w) f target = Inr ?fs" using fl n d by (rule os_rename_done)
          have l: "\<And>q. map_of ?fs q =
              (if q = target then map_of (files w) f else if q = f then None else map_of (files w) q)"
            using fl n d o by (rule os_rename_lookup)
          have rest: "\<And>p. p \<in> set it \<Longrightarrow> map_of ?fs p = map_of (files w) p"
            using ok fl n d o by (rule renamed_rest)
          have ok2: "listing_ok ?fs it"
            using ok' rest by (rule listing_ok_same)
          have e: "rename_loop dry (f # it) w r s =
              rename_loop dry it (print_line (renamed_line f target) (w\<lparr>files := ?fs\<rparr>)) (r + 1) s"
            using real rename_loop_renamed[OF fl Some c o] by simp
          have "listing_ok (files (print_line (renamed_line f target) (w\<lparr>files := ?fs\<rparr>))) it"
            using ok2 by simp
          then have "P it (print_line (renamed_line f target) (w\<lparr>files := ?fs\<rparr>)) (r + 1) s"
            by (rule Cons.IH)
          with real ok fl Some c d a n o l rest ok2 e show ?thesis by (rule Renamed)
        qed
      qed
    qed
  qed
qed

declare rename_loop.simps(2) [simp del]

lemma to_rename_cong:
  "(\<And>p. p \<in> set it \<Longrightarrow> map_of fs' p = map_of fs p) \<Longrightarrow> to_rename fs' it = to_rename fs it"
  by (simp add: to_rename_def is_file_def cong: filter_cong)

lemma unchanged_cong:
  "(\<And>p. p \<in> set it \<Longrightarrow> map_of fs' p = map_of fs p) \<Longrightarrow> unchanged fs' it = unchanged fs it"
  by (simp add: unchanged_def is_file_def cong: filter_cong)

lemma to_rename_Cons:
  "to_rename fs (f # it) =
     (if is_file fs f \<and> compute_target_name f \<noteq> None then f # to_rename fs it else to_rename fs it)"
  by (simp add: to_rename_def)

lemma unchanged_Cons:
  "unchanged fs (f # it) =
     (if is_file fs f \<and> compute_target_name f = None then f # unchanged fs it else unchanged fs it)"
  by (simp add: unchanged_def)

text \<open>The counters of a run that completes.\<close>

lemma rename_loop_counts:
  assumes "listing_ok (files w) it"
  shows "rename_loop dry it w r s = Inr (r', s', w') \<Longrightarrow>
         r' = r + length (to_rename (files w) it) \<and> s' = s + length (unchanged (files w) it)"
  using assms
proof (induction it w r s rule: rename_loop_induct[where dry = dry])
  case (Done w r s)
  then show ?case by (simp add: to_rename_def unchanged_def)
next
  case (NotFile f it w r s)
  then show ?case by (simp add: to_rename_Cons unchanged_Cons)
next
  case (Unchanged f it w r s)
  then show ?case by (simp add: to_rename_Cons unchanged_Cons)
next
  case (Planned f it w r s t target)
  then show ?case by (simp add: to_rename_Cons unchanged_Cons)
next
  case (Refused f it w r s t target)
  then show ?case by simp
next
  case (Renamed f it w r s t target fs')
  have "to_rename fs' it = to_rename (files w) it"
    and "unchanged fs' it = unchanged (files w) it"
    using Renamed(11) by (auto intro: to_rename_cong unchanged_cong)
  with Renamed(3,4,13,14,15) show ?case by (simp add: to_rename_Cons unchanged_Cons)
qed


text \<open>The line printed for a file, in either mode.\<close>

definition report_line :: "bool \<Rightarrow> path \<Rightarrow> path \<Rightarrow> string" where
  "report_line dry file target = (if dry then dry_run_line file target else renamed_line file target)"

text \<open>The world a run ends in, completed or not.\<close>

definition final_world :: "run_result \<Rightarrow> world" where
  "final_world res = (case res of Inl (e, r, s, w) \<Rightarrow> w | Inr (r, s, w) \<Rightarrow> w)"

lemma final_world_simps [simp]:
  "final_world (Inl (e, r, s, w)) = w" "final_world (Inr (r, s, w)) = w"
  by (simp_all add: final_world_def)

text \<open>What a run that completes has printed: one line for each file to rename, in the
  order of the listing, and nothing else.\<close>

lemma rename_loop_output:
  assumes "listing_ok (files w) it"
  shows "rename_loop dry it w r s = Inr (r', s', w') \<Longrightarrow>
         \<exists>targets. length targets = length (to_rename (files w) it)
           \<and> stdout w' = stdout w @ map2 (report_line dry) (to_rename (files w) it) targets"
  using assms
proof (induction it w r s rule: rename_loop_induct[where dry = dry])
  case (Done w r s)
  then show ?case by (simp add: to_rename_def)
next
  case (NotFile f it w r s)
  then show ?case by (simp add: to_rename_Cons)
next
  case (Unchanged f it w r s)
  then show ?case by (simp add: to_rename_Cons)
next
  case (Planned f it w r s t target)
  from Planned(8,9,10) obtain targets where
    "length targets = length (to_rename (files w) it)"
    "stdout w' = (stdout w @ [dry_run_line f target]) @ map2 (report_line dry) (to_rename (files w) it) targets"
    by auto
  with Planned(1,3,4) show ?case
    by (intro exI[of _ "target # targets"]) (simp add: to_rename_Cons report_line_def)
next
  case (Refused f it w r s t target)
  then show ?case by simp
next
  case (Renamed f it w r s t target fs')
  have tr: "to_rename fs' it = to_rename (files w) it"
    using Renamed(11) by (auto intro: to_rename_cong)
  from Renamed(13,14,15) obtain targets where
    "length targets = length (to_rename fs' it)"
    "stdout w' = (stdout w @ [renamed_line f target]) @ map2 (report_line dry) (to_rename fs' it) targets"
    by auto
  with Renamed(1,3,4) tr show ?case
    by (intro exI[of _ "target # targets"]) (simp add: to_rename_Cons report_line_def)
qed

text \<open>A dry run always completes and leaves the file system as it was.\<close>

lemma dry_run_completes:
  assumes "listing_ok (files w) it"
  shows "\<exists>r' s' w'. rename_loop True it w r s = Inr (r', s', w') \<and> files w' = files w"
  using assms
proof (induction it w r s rule: rename_loop_induct[where dry = True])
  case (Done w r s)
  show ?case by simp
next
  case (NotFile f it w r s)
  then show ?case by simp
next
  case (Unchanged f it w r s)
  then show ?case by simp
next
  case (Planned f it w r s t target)
  then show ?case by simp
next
  case (Refused f it w r s t target)
  then show ?case by simp
next
  case (Renamed f it w r s t target fs')
  then show ?case by simp
qed

text \<open>A real run completes when the operating system refuses none of the renames.\<close>

lemma real_run_completes:
  assumes "listing_ok (files w) it"
  shows "(\<And>p. p \<in> set (to_rename (files w) it) \<Longrightarrow> \<not> refuses (files w) p) \<Longrightarrow>
         \<exists>r' s' w'. rename_loop False it w r s = Inr (r', s', w')"
  using assms
proof (induction it w r s rule: rename_loop_induct[where dry = False])
  case (Done w r s)
  show ?case by simp
next
  case (NotFile f it w r s)
  then show ?case by (simp add: to_rename_Cons)
next
  case (Unchanged f it w r s)
  then show ?case by (simp add: to_rename_Cons)
next
  case (Planned f it w r s t target)
  then show ?case by simp
next
  case (Refused f it w r s t target)
  from Refused(3,4) have "f \<in> set (to_rename (files w) (f # it))" by (simp add: to_rename_Cons)
  from Refused(10)[OF this] Refused(7) show ?case by simp
next
  case (Renamed f it w r s t target fs')
  have tr: "to_rename fs' it = to_rename (files w) it"
    using Renamed(11) by (auto intro: to_rename_cong)
  have "\<And>p. p \<in> set (to_rename fs' it) \<Longrightarrow> \<not> refuses fs' p"
  proof -
    fix p assume p: "p \<in> set (to_rename fs' it)"
    then have i: "p \<in> set it" by (simp add: to_rename_def)
    from p tr Renamed(3,4) have "p \<in> set (to_rename (files w) (f # it))" by (simp add: to_rename_Cons)
    then have "\<not> refuses (files w) p" by (rule Renamed(15))
    then show "\<not> refuses fs' p" using Renamed(11)[OF i] by (simp add: refuses_def)
  qed
  then have "\<exists>r' s' w'. rename_loop False it (print_line (renamed_line f target) (w\<lparr>files := fs'\<rparr>)) (r + 1) s = Inr (r', s', w')"
    using Renamed(14) by simp
  with Renamed(13) show ?case by simp
qed

text \<open>Only a refused rename ends a run early; a dry run never ends early.\<close>

lemma rename_loop_fails:
  assumes "listing_ok (files w) it"
  shows "rename_loop dry it w r s = Inl (e, r', s', w') \<Longrightarrow>
         \<not> dry \<and> e = PermissionError
         \<and> (\<exists>ps f rest. it = ps @ f # rest \<and> rename_loop dry ps w r s = Inr (r', s', w')
               \<and> is_file (files w') f \<and> compute_target_name f \<noteq> None \<and> refuses (files w') f)"
  using assms
proof (induction it w r s rule: rename_loop_induct[where dry = dry])
  case (Done w r s)
  then show ?case by simp
next
  case (NotFile f it w r s)
  from NotFile(3,4,5) obtain ps g rest where h: "\<not> dry" "e = PermissionError"
    "it = ps @ g # rest" "rename_loop dry ps w r s = Inr (r', s', w')"
    "is_file (files w') g" "compute_target_name g \<noteq> None" "refuses (files w') g"
    by auto
  have "rename_loop dry (f # ps) w r s = Inr (r', s', w')"
    using h(4) NotFile(2) by (simp add: rename_loop_not_file)
  with h show ?case by (intro conjI exI[of _ "f # ps"] exI[of _ g] exI[of _ rest]) simp_all
next
  case (Unchanged f it w r s)
  from Unchanged(4,5,6) obtain ps g rest where h: "\<not> dry" "e = PermissionError"
    "it = ps @ g # rest" "rename_loop dry ps w r (s + 1) = Inr (r', s', w')"
    "is_file (files w') g" "compute_target_name g \<noteq> None" "refuses (files w') g"
    by auto
  have "rename_loop dry (f # ps) w r s = Inr (r', s', w')"
    using h(4) Unchanged(2,3) by (simp add: rename_loop_unchanged)
  with h show ?case by (intro conjI exI[of _ "f # ps"] exI[of _ g] exI[of _ rest]) simp_all
next
  case (Planned f it w r s t target)
  from Planned(1,8,9,10) show ?case by auto
next
  case (Refused f it w r s t target)
  from Refused(9,10) have e: "e = PermissionError" "r' = r" "s' = s" "w' = w" by simp_all
  from Refused(1,3,4,7) show ?case unfolding e
    by (intro conjI exI[of _ "[]"] exI[of _ f] exI[of _ it]) simp_all
next
  case (Renamed f it w r s t target fs')
  from Renamed(13,14,15) obtain ps g rest where h: "e = PermissionError"
    "it = ps @ g # rest"
    "rename_loop dry ps (print_line (renamed_line f target) (w\<lparr>files := fs'\<rparr>)) (r + 1) s
       = Inr (r', s', w')"
    "is_file (files w') g" "compute_target_name g \<noteq> None" "refuses (files w') g"
    by auto
  have "rename_loop dry (f # ps) w r s = Inr (r', s', w')"
    using h(3) Renamed(1) rename_loop_renamed[OF Renamed(3,4,5,9)] by simp
  with h Renamed(1) show ?case
    by (intro conjI exI[of _ "f # ps"] exI[of _ g] exI[of _ rest]) simp_all
qed

text \<open>Entries outside the listing are left as they are, whether the run completes or not.\<close>

lemma rename_loop_frame:
  assumes "listing_ok (files w) it"
  shows "path_exists (files w) q \<Longrightarrow> q \<notin> set it \<Longrightarrow>
         map_of (files (final_world (rename_loop dry it w r s))) q = map_of (files w) q"
  using assms
proof (induction it w r s rule: rename_loop_induct[where dry = dry])
  case (Done w r s)
  show ?case by simp
next
  case (NotFile f it w r s)
  then show ?case by simp
next
  case (Unchanged f it w r s)
  then show ?case by simp
next
  case (Planned f it w r s t target)
  then show ?case by simp
next
  case (Refused f it w r s t target)
  then show ?case by simp
next
  case (Renamed f it w r s t target fs')
  from Renamed(6,15,16) have "q \<noteq> target" "q \<noteq> f" by auto
  then have m: "map_of fs' q = map_of (files w) q" using Renamed(10)[of q] by simp
  with Renamed(15) have "path_exists fs' q" by (simp add: path_exists_def)
  with Renamed(14,16) m Renamed(13) show ?case by simp
qed

text \<open>The other streams: the loop prints nothing to standard error.\<close>

lemma rename_loop_stderr:
  assumes "listing_ok (files w) it"
  shows "stderr (final_world (rename_loop dry it w r s)) = stderr w"
  using assms
proof (induction it w r s rule: rename_loop_induct[where dry = dry])
  case (Done w r s)
  show ?case by simp
next
  case (NotFile f it w r s)
  then show ?case by simp
next
  case (Unchanged f it w r s)
  then show ?case by simp
next
  case (Planned f it w r s t target)
  then show ?case by simp
next
  case (Refused f it w r s t target)
  then show ?case by simp
next
  case (Renamed f it w r s t target fs')
  then show ?case by simp
qed

text \<open>
  After a real run that completes, a regular file whose stem still holds an \<^verbatim>\<open>@\<close> is a
  file of the start that the listing did not hold: the names the run has given hold no
  \<^verbatim>\<open>@\<close>.
\<close>

lemma rename_loop_leaves_no_at:
  assumes "listing_ok (files w) it"
  shows "rename_loop False it w r s = Inr (r', s', w') \<Longrightarrow>
         is_file (files w') p \<Longrightarrow> compute_target_name p \<noteq> None \<Longrightarrow>
         is_file (files w) p \<and> p \<notin> set it"
  using assms
proof (induction it w r s rule: rename_loop_induct[where dry = False])
  case (Done w r s)
  then show ?case by simp
next
  case (NotFile f it w r s)
  from NotFile(3,4,5,6,7) have "is_file (files w) p \<and> p \<notin> set it" by simp
  with NotFile(2) show ?case by auto
next
  case (Unchanged f it w r s)
  from Unchanged(4,5,6,7,8) have "is_file (files w) p \<and> p \<notin> set it" by simp
  with Unchanged(3) Unchanged(8) show ?case by auto
next
  case (Planned f it w r s t target)
  then show ?case by simp
next
  case (Refused f it w r s t target)
  then show ?case by simp
next
  case (Renamed f it w r s t target fs')
  from Renamed(13,14,15,16,17) have i: "is_file fs' p" "p \<notin> set it" by simp_all
  have "compute_target_name target = None" using Renamed(7) by (rule compute_target_name_no_at)
  with Renamed(17) have nt: "p \<noteq> target" by auto
  from Renamed(3,6) have "f \<noteq> target" by (auto dest: is_file_exists)
  then have "map_of fs' f = None" using Renamed(10)[of f] by simp
  with i(1) have nf: "p \<noteq> f" by (auto simp: is_file_def)
  from nt nf have "map_of fs' p = map_of (files w) p" using Renamed(10)[of p] by simp
  with i nf show ?case by (simp add: is_file_def)
qed

section \<open>Facts about the listing\<close>

text \<open>
  \<open>well_formed fs\<close>: no path is listed twice and every component of every path is a name
  a directory entry can have. \<open>scanned fs root deep\<close> (\<open>deep\<close> for \<^verbatim>\<open>recursive\<close>) is the iterator \<^verbatim>\<open>it\<close> of
  \<open>rename_in_directory\<close>.
\<close>

definition well_formed :: "filesystem \<Rightarrow> bool" where
  "well_formed fs = (distinct (map fst fs) \<and> list_all (list_all valid_name) (map fst fs))"

definition scanned :: "filesystem \<Rightarrow> path \<Rightarrow> bool \<Rightarrow> path list" where
  "scanned fs root deep = (if deep then rglob_conf fs root else glob_conf fs root)"

definition in_scope :: "path \<Rightarrow> bool \<Rightarrow> path \<Rightarrow> bool" where
  "in_scope root deep p =
     (if deep
      then length root < length p \<and> take (length root) p = root \<and> matches_conf (last p)
      else p \<noteq> [] \<and> butlast p = root \<and> matches_conf (last p))"

lemma rename_in_directory_loop:
  "rename_in_directory root deep dry w = rename_loop dry (scanned (files w) root deep) w 0 0"
  by (simp add: rename_in_directory_def scanned_def)

lemma scanned_filter: "scanned fs root deep = filter (in_scope root deep) (map fst fs)"
proof -
  have "in_scope root deep =
      (\<lambda>p. if deep
        then length root < length p \<and> take (length root) p = root \<and> matches_conf (last p)
        else p \<noteq> [] \<and> butlast p = root \<and> matches_conf (last p))"
    by (rule ext) (simp add: in_scope_def)
  then show ?thesis by (simp add: scanned_def glob_conf_def rglob_conf_def)
qed

lemma set_scanned:
  "p \<in> set (scanned fs root deep) \<longleftrightarrow> path_exists fs p \<and> in_scope root deep p"
  by (auto simp: scanned_filter path_exists_iff)

lemma in_scope_name: "in_scope root deep p \<Longrightarrow> p \<noteq> [] \<and> matches_conf (path_name p)"
  by (auto simp: in_scope_def path_name_def split: if_splits)

lemma scanned_listing_ok:
  assumes "well_formed fs"
  shows "listing_ok fs (scanned fs root deep)"
proof -
  have "distinct (scanned fs root deep)"
    using assms by (simp add: scanned_filter well_formed_def)
  moreover have "path_exists fs p \<and> matches_conf (path_name p) \<and> valid_name (path_name p)"
    if p: "p \<in> set (scanned fs root deep)" for p
  proof -
    from p have e: "path_exists fs p" and s: "in_scope root deep p" by (simp_all add: set_scanned)
    from s have n: "p \<noteq> []" and m: "matches_conf (path_name p)" by (simp_all add: in_scope_name)
    from e have "p \<in> set (map fst fs)" by (simp add: path_exists_iff)
    with assms have "list_all valid_name p" by (auto simp: well_formed_def list_all_iff)
    with n have "valid_name (path_name p)" by (simp add: path_name_def list_all_iff)
    with e m show ?thesis by simp
  qed
  ultimately show ?thesis by (simp add: listing_ok_def list_all_iff)
qed

lemma listing_ok_prefix: "listing_ok fs (ps @ qs) \<Longrightarrow> listing_ok fs ps"
  by (simp add: listing_ok_def)

text \<open>A listing with nothing to rename: the loop only counts.\<close>

lemma rename_loop_idle:
  "(\<And>p. p \<in> set it \<Longrightarrow> is_file (files w) p \<Longrightarrow> compute_target_name p = None) \<Longrightarrow>
   rename_loop dry it w r s = Inr (r, s + length (filter (is_file (files w)) it), w)"
proof (induction it arbitrary: s)
  case Nil
  show ?case by simp
next
  case (Cons f it s)
  show ?case
  proof (cases "is_file (files w) f")
    case False
    then show ?thesis using Cons by (simp add: rename_loop_not_file)
  next
    case True
    then have "compute_target_name f = None" using Cons.prems by simp
    with True show ?thesis using Cons by (simp add: rename_loop_unchanged)
  qed
qed

lemma length_to_rename_unchanged:
  "length (to_rename fs it) + length (unchanged fs it) = length (filter (is_file fs) it)"
proof (induction it)
  case Nil
  show ?case by (simp add: to_rename_def unchanged_def)
next
  case (Cons f it)
  then show ?case by (simp add: to_rename_Cons unchanged_Cons)
qed

text \<open>A run that completes has met no refused file.\<close>

lemma completed_none_refused:
  assumes "listing_ok (files w) it"
  shows "rename_loop False it w r s = Inr (r', s', w') \<Longrightarrow>
         p \<in> set (to_rename (files w) it) \<Longrightarrow> \<not> refuses (files w) p"
  using assms
proof (induction it w r s rule: rename_loop_induct[where dry = False])
  case (Done w r s)
  then show ?case by (simp add: to_rename_def)
next
  case (NotFile f it w r s)
  then show ?case by (simp add: to_rename_Cons)
next
  case (Unchanged f it w r s)
  then show ?case by (simp add: to_rename_Cons)
next
  case (Planned f it w r s t target)
  then show ?case by simp
next
  case (Refused f it w r s t target)
  then show ?case by simp
next
  case (Renamed f it w r s t target fs')
  show ?case
  proof (cases "p = f")
    case True
    with Renamed(8) show ?thesis by simp
  next
    case False
    with Renamed(16) have p: "p \<in> set (to_rename (files w) it)" by (simp add: to_rename_Cons split: if_splits)
    then have i: "p \<in> set it" by (simp add: to_rename_def)
    have "to_rename fs' it = to_rename (files w) it" using Renamed(11) by (auto intro: to_rename_cong)
    with p Renamed(13,14,15) have "\<not> refuses fs' p" by simp
    then show ?thesis using Renamed(11)[OF i] by (simp add: refuses_def)
  qed
qed

text \<open>
  A real run that ends early ended at the first file to rename that the operating system
  refuses: the counters and the world are those after the files before it, and the file
  is still there under its old name.
\<close>

lemma first_refusal:
  assumes ok: "listing_ok (files w) it"
    and res: "rename_loop False it w r s = Inl (e, r', s', w')"
  shows "e = PermissionError \<and>
         (\<exists>ps f rest. it = ps @ f # rest \<and> rename_loop False ps w r s = Inr (r', s', w')
            \<and> f \<in> set (to_rename (files w) it) \<and> refuses (files w) f
            \<and> map_of (files w') f = map_of (files w) f)"
proof -
  from rename_loop_fails[OF ok res]
  obtain ps f rest where e: "e = PermissionError" and it: "it = ps @ f # rest"
    and p: "rename_loop False ps w r s = Inr (r', s', w')"
    and f: "is_file (files w') f" "compute_target_name f \<noteq> None" "refuses (files w') f"
    by blast
  have okp: "listing_ok (files w) ps" using ok unfolding it by (rule listing_ok_prefix)
  have "path_exists (files w) f" "f \<notin> set ps"
    using ok unfolding it by (auto simp: listing_ok_def)
  from rename_loop_frame[OF okp this, of False r s]
  have m: "map_of (files w') f = map_of (files w) f" using p by simp
  with f have "is_file (files w) f" "refuses (files w) f" by (simp_all add: is_file_def refuses_def)
  with f(2) have "f \<in> set (to_rename (files w) it)" unfolding it by (simp add: to_rename_def)
  with e p m \<open>refuses (files w) f\<close> show ?thesis
    unfolding it by (intro conjI exI[of _ ps] exI[of _ f] exI[of _ rest]) simp_all
qed

section \<open>Facts about \<^verbatim>\<open>main\<close>\<close>

text \<open>How \<open>main\<close> ends on a directory.\<close>

lemma main_on_directory:
  "is_dir (files w) (path a) \<Longrightarrow>
   main a w =
     (case rename_in_directory (path a) (recursive a) (dry_run a) w of
        Inl (e, renamed, skipped, w') \<Rightarrow> (Raise e, w')
      | Inr (renamed, skipped, w') \<Rightarrow>
          (Return 0, print_line (summary_line (dry_run a) renamed skipped) w'))"
  by (simp add: main_def)

lemma main_returns:
  assumes d: "is_dir (files w) (path a)" and m: "main a w = (Return 0, w')"
  shows "\<exists>renamed skipped w1.
           rename_in_directory (path a) (recursive a) (dry_run a) w = Inr (renamed, skipped, w1)
         \<and> w' = print_line (summary_line (dry_run a) renamed skipped) w1"
proof (cases "rename_in_directory (path a) (recursive a) (dry_run a) w")
  case (Inl y)
  obtain e r s w1 where "y = (e, r, s, w1)" by (cases y)
  with m Inl show ?thesis by (simp add: main_on_directory[OF d])
next
  case (Inr x)
  obtain r s w1 where x: "x = (r, s, w1)" by (cases x)
  with m Inr have "w' = print_line (summary_line (dry_run a) r s) w1"
    by (simp add: main_on_directory[OF d])
  with Inr x show ?thesis by (intro exI[of _ r] exI[of _ s] exI[of _ w1]) simp
qed

section \<open>The claims\<close>

text \<open>
  C1. For every file name, \<open>compute_target_name\<close> returns \<open>None\<close> (unchanged: the file
  is skipped) exactly when the stem holds no \<^verbatim>\<open>@\<close>. Otherwise it returns what stands in
  the stem before the first \<^verbatim>\<open>@\<close>, followed by the suffix of the name; what follows the
  first \<^verbatim>\<open>@\<close>, further \<^verbatim>\<open>@\<close> included, is dropped. For a \<^verbatim>\<open>.conf\<close> name whose stem
  begins with \<^verbatim>\<open>@\<close> the result is the name \<^verbatim>\<open>.conf\<close>.
\<close>

theorem compute_target_name_first_at:
  "(compute_target_name src = None \<longleftrightarrow> CHR ''@'' \<notin> set (py_stem (path_name src)))
   \<and> (\<forall>pre rest. py_stem (path_name src) = pre @ CHR ''@'' # rest \<and> CHR ''@'' \<notin> set pre
        \<longrightarrow> compute_target_name src = Some (pre @ py_suffix (path_name src)))
   \<and> compute_target_name (path_join directory (CHR ''@'' # domain @ ''.conf'')) = Some ''.conf''"
proof (intro conjI allI impI)
  show "compute_target_name src = None \<longleftrightarrow> CHR ''@'' \<notin> set (py_stem (path_name src))"
    by (simp add: compute_target_name_def Let_def split1_head_all)
next
  fix pre rest
  assume a: "py_stem (path_name src) = pre @ CHR ''@'' # rest \<and> CHR ''@'' \<notin> set pre"
  then have "split1_head (py_stem (path_name src)) (CHR ''@'') = pre"
    by (simp add: split1_head_first)
  with a show "compute_target_name src = Some (pre @ py_suffix (path_name src))"
    by (simp add: compute_target_name_def Let_def)
next
  have st: "py_stem ((CHR ''@'' # domain) @ ''.conf'') = CHR ''@'' # domain"
    by (rule py_stem_conf) simp
  have su: "py_suffix ((CHR ''@'' # domain) @ ''.conf'') = ''.conf''"
    by (rule py_suffix_conf) simp
  have "split1_head (CHR ''@'' # domain) (CHR ''@'') = []"
    by (simp add: split1_head_def)
  with st su show "compute_target_name (path_join directory (CHR ''@'' # domain @ ''.conf'')) = Some ''.conf''"
    by (simp add: compute_target_name_def Let_def path_name_join)
qed

theorem compute_target_name_first_at_witness:
  "compute_target_name [''wg'', ''mail@example.com@old.conf''] = Some ''mail.conf''
   \<and> py_stem ''mail@example.com@old.conf'' = ''mail'' @ CHR ''@'' # ''example.com@old''
   \<and> compute_target_name [''plain.conf''] = None
   \<and> compute_target_name [''@x.conf''] = Some ''.conf''"
proof -
  have st: "py_stem (path_name [''wg'', ''mail@example.com@old.conf'']) = ''mail'' @ CHR ''@'' # ''example.com@old''"
    by (simp add: py_stem_def rfind_def path_name_def)
  have su: "py_suffix (path_name [''wg'', ''mail@example.com@old.conf'']) = ''.conf''"
    by (simp add: py_suffix_def rfind_def path_name_def)
  have "compute_target_name [''wg'', ''mail@example.com@old.conf''] = Some (''mail'' @ py_suffix (path_name [''wg'', ''mail@example.com@old.conf'']))"
    using compute_target_name_first_at[of "[''wg'', ''mail@example.com@old.conf'']", THEN conjunct2, THEN conjunct1, rule_format, of "''mail''" "''example.com@old''"]
      st by simp
  with su have 1: "compute_target_name [''wg'', ''mail@example.com@old.conf''] = Some ''mail.conf''" by simp
  have 2: "py_stem ''mail@example.com@old.conf'' = ''mail'' @ CHR ''@'' # ''example.com@old''"
    by (simp add: py_stem_def rfind_def)
  have "CHR ''@'' \<notin> set (py_stem (path_name [''plain.conf'']))"
    by (simp add: py_stem_def rfind_def path_name_def)
  then have 3: "compute_target_name [''plain.conf''] = None"
    using compute_target_name_first_at[of "[''plain.conf'']", THEN conjunct1] by simp
  have 4: "compute_target_name [''@x.conf''] = Some ''.conf''"
    using compute_target_name_first_at[of _ "[]" "''x''", THEN conjunct2, THEN conjunct2]
    by (simp add: path_join_def)
  from 1 2 3 4 show ?thesis by simp
qed

text \<open>
  C2. The final name of a rename. For every file system, file and desired target name: when
  no entry with the desired name exists in the parent directory of the file, the final
  name is the desired name; when one exists, the final name is \<^verbatim>\<open>stem-i.ext\<close> for the
  lowest positive \<open>i\<close> such that \<^verbatim>\<open>stem-i.ext\<close> does not exist in that directory. The
  same holds of \<open>next_available_name\<close> on its own. In a directory that holds exactly
  \<^verbatim>\<open>a@x.conf\<close> and \<^verbatim>\<open>a.conf\<close>, in either order of listing, the run renames \<^verbatim>\<open>a@x.conf\<close> to
  \<^verbatim>\<open>a-1.conf\<close> and leaves \<^verbatim>\<open>a.conf\<close> as it is.
\<close>

theorem lowest_free_suffix:
  assumes "valid_name (path_name file)" and "valid_name t"
  shows "(\<not> path_exists fs (path_join (path_parent file) t) \<longrightarrow>
            choose_target fs file t = Inr (path_join (path_parent file) t))
       \<and> (path_exists fs (path_join (path_parent file) t) \<longrightarrow>
            (\<exists>i\<ge>1. choose_target fs file t
                 = Inr (path_join (path_parent file) (py_stem t @ ''-'' @ format_int i @ py_suffix t))
               \<and> \<not> path_exists fs
                     (path_join (path_parent file) (py_stem t @ ''-'' @ format_int i @ py_suffix t))
               \<and> (\<forall>j. 1 \<le> j \<and> j < i \<longrightarrow> path_exists fs
                     (path_join (path_parent file) (py_stem t @ ''-'' @ format_int j @ py_suffix t)))))
       \<and> (\<not> path_exists fs (path_join directory (stem @ ext)) \<longrightarrow>
            next_available_name fs directory stem ext = stem @ ext)
       \<and> (path_exists fs (path_join directory (stem @ ext)) \<longrightarrow>
            (\<exists>i\<ge>1. next_available_name fs directory stem ext = stem @ ''-'' @ format_int i @ ext
               \<and> \<not> path_exists fs (path_join directory (stem @ ''-'' @ format_int i @ ext))
               \<and> (\<forall>j. 1 \<le> j \<and> j < i \<longrightarrow>
                     path_exists fs (path_join directory (stem @ ''-'' @ format_int j @ ext)))))
       \<and> rename_in_directory [''wg''] False False
            \<lparr>files = [([''wg''], Directory),
                       ([''wg'', ''a@x.conf''], RegularFile False ''key 1''),
                       ([''wg'', ''a.conf''], RegularFile False ''key 2'')],
             stdout = [], stderr = []\<rparr>
          = Inr (1, 1,
            \<lparr>files = [([''wg''], Directory),
                       ([''wg'', ''a-1.conf''], RegularFile False ''key 1''),
                       ([''wg'', ''a.conf''], RegularFile False ''key 2'')],
             stdout = [''Renamed: a@x.conf -> a-1.conf''], stderr = []\<rparr>)
       \<and> rename_in_directory [''wg''] False False
            \<lparr>files = [([''wg''], Directory),
                       ([''wg'', ''a.conf''], RegularFile False ''key 2''),
                       ([''wg'', ''a@x.conf''], RegularFile False ''key 1'')],
             stdout = [], stderr = []\<rparr>
          = Inr (1, 1,
            \<lparr>files = [([''wg''], Directory),
                       ([''wg'', ''a.conf''], RegularFile False ''key 2''),
                       ([''wg'', ''a-1.conf''], RegularFile False ''key 1'')],
             stdout = [''Renamed: a@x.conf -> a-1.conf''], stderr = []\<rparr>)"
proof (intro conjI impI)
  assume "\<not> path_exists fs (path_join (path_parent file) t)"
  with assms show "choose_target fs file t = Inr (path_join (path_parent file) t)"
    by (rule choose_target_free)
next
  assume "path_exists fs (path_join (path_parent file) t)"
  from choose_target_taken[OF assms this]
  show "\<exists>i\<ge>1. choose_target fs file t
                 = Inr (path_join (path_parent file) (py_stem t @ ''-'' @ format_int i @ py_suffix t))
               \<and> \<not> path_exists fs
                     (path_join (path_parent file) (py_stem t @ ''-'' @ format_int i @ py_suffix t))
               \<and> (\<forall>j. 1 \<le> j \<and> j < i \<longrightarrow> path_exists fs
                     (path_join (path_parent file) (py_stem t @ ''-'' @ format_int j @ py_suffix t)))"
    unfolding numbered_name_def .
next
  assume "\<not> path_exists fs (path_join directory (stem @ ext))"
  then show "next_available_name fs directory stem ext = stem @ ext"
    by (rule next_available_name_free)
next
  assume "path_exists fs (path_join directory (stem @ ext))"
  from next_available_name_least[OF this]
  show "\<exists>i\<ge>1. next_available_name fs directory stem ext = stem @ ''-'' @ format_int i @ ext
               \<and> \<not> path_exists fs (path_join directory (stem @ ''-'' @ format_int i @ ext))
               \<and> (\<forall>j. 1 \<le> j \<and> j < i \<longrightarrow>
                     path_exists fs (path_join directory (stem @ ''-'' @ format_int j @ ext)))"
    unfolding numbered_name_def .
next
  show "rename_in_directory [''wg''] False False
            \<lparr>files = [([''wg''], Directory),
                       ([''wg'', ''a@x.conf''], RegularFile False ''key 1''),
                       ([''wg'', ''a.conf''], RegularFile False ''key 2'')],
             stdout = [], stderr = []\<rparr>
          = Inr (1, 1,
            \<lparr>files = [([''wg''], Directory),
                       ([''wg'', ''a-1.conf''], RegularFile False ''key 1''),
                       ([''wg'', ''a.conf''], RegularFile False ''key 2'')],
             stdout = [''Renamed: a@x.conf -> a-1.conf''], stderr = []\<rparr>)"
    by code_simp
next
  show "rename_in_directory [''wg''] False False
            \<lparr>files = [([''wg''], Directory),
                       ([''wg'', ''a.conf''], RegularFile False ''key 2''),
                       ([''wg'', ''a@x.conf''], RegularFile False ''key 1'')],
             stdout = [], stderr = []\<rparr>
          = Inr (1, 1,
            \<lparr>files = [([''wg''], Directory),
                       ([''wg'', ''a.conf''], RegularFile False ''key 2''),
                       ([''wg'', ''a-1.conf''], RegularFile False ''key 1'')],
             stdout = [''Renamed: a@x.conf -> a-1.conf''], stderr = []\<rparr>)"
    by code_simp
qed


theorem lowest_free_suffix_witness:
  "valid_name (path_name [''wg'', ''a@x.conf'']) \<and> valid_name ''a.conf''
   \<and> path_exists [([''wg'', ''a.conf''], Special), ([''wg'', ''a-1.conf''], Directory)]
         (path_join (path_parent [''wg'', ''a@x.conf'']) ''a.conf'')
   \<and> choose_target [([''wg'', ''a.conf''], Special), ([''wg'', ''a-1.conf''], Directory)]
         [''wg'', ''a@x.conf''] ''a.conf'' = Inr [''wg'', ''a-2.conf'']
   \<and> \<not> path_exists [([''wg'', ''a.conf''], Special), ([''wg'', ''a-1.conf''], Directory)]
         (path_join (path_parent [''wg'', ''b@x.conf'']) ''b.conf'')
   \<and> choose_target [([''wg'', ''a.conf''], Special), ([''wg'', ''a-1.conf''], Directory)]
         [''wg'', ''b@x.conf''] ''b.conf'' = Inr [''wg'', ''b.conf'']"
proof -
  let ?fs = "[([''wg'', ''a.conf''], Special), ([''wg'', ''a-1.conf''], Directory)]"
  let ?f = "[''wg'', ''a@x.conf'']"
  let ?g = "[''wg'', ''b@x.conf'']"
  let ?c = "\<lambda>i. path_join (path_parent ?f) (py_stem ''a.conf'' @ ''-'' @ format_int i @ py_suffix ''a.conf'')"
  have v1: "valid_name (path_name ?f)" by code_simp
  have v2: "valid_name ''a.conf''" by code_simp
  have v3: "valid_name (path_name ?g)" by code_simp
  have v4: "valid_name ''b.conf''" by code_simp
  have ex: "path_exists ?fs (path_join (path_parent ?f) ''a.conf'')" by code_simp
  have nex: "\<not> path_exists ?fs (path_join (path_parent ?g) ''b.conf'')" by code_simp
  have one: "path_exists ?fs (?c 1)" by code_simp
  have two: "\<not> path_exists ?fs (?c 2)" by code_simp
  have c2: "?c 2 = [''wg'', ''a-2.conf'']" by code_simp
  from lowest_free_suffix[OF v1 v2, of ?fs, THEN conjunct2, THEN conjunct1, rule_format, OF ex]
  obtain i where i: "i \<ge> 1" "choose_target ?fs ?f ''a.conf'' = Inr (?c i)"
    "\<not> path_exists ?fs (?c i)" "\<forall>j. 1 \<le> j \<and> j < i \<longrightarrow> path_exists ?fs (?c j)"
    by (elim exE conjE)
  have "i \<noteq> 1" using i(3) one by (intro notI) simp
  moreover have "\<not> 2 < i" using i(4) two by (intro notI) (simp only: one_le_numeral simp_thms)
  ultimately have "i = 2" using i(1) by simp
  with i(2) c2 have a: "choose_target ?fs ?f ''a.conf'' = Inr [''wg'', ''a-2.conf'']" by simp
  have "choose_target ?fs ?g ''b.conf'' = Inr (path_join (path_parent ?g) ''b.conf'')"
    using lowest_free_suffix[OF v3 v4, of ?fs, THEN conjunct1, rule_format, OF nex] .
  also have "path_join (path_parent ?g) ''b.conf'' = [''wg'', ''b.conf'']" by code_simp
  finally have b: "choose_target ?fs ?g ''b.conf'' = Inr [''wg'', ''b.conf'']" .
  from v1 v2 ex a nex b show ?thesis by (intro conjI)
qed

text \<open>
  C3. The final name keeps the extension \<^verbatim>\<open>.conf\<close>. The code breaks this for a stem that
  begins with \<^verbatim>\<open>@\<close> when \<^verbatim>\<open>.conf\<close> is taken: pathlib reads the target \<^verbatim>\<open>.conf\<close> as a stem
  with no suffix, so the numbered name is \<^verbatim>\<open>.conf-1\<close>, which does not end in \<^verbatim>\<open>.conf\<close>.
  Shown here at that input, in both modes.
\<close>

theorem empty_stem_loses_extension:
  "rename_in_directory [''wg''] False False
     \<lparr>files = [([''wg''], Directory),
                ([''wg'', ''@example.com.conf''], RegularFile False ''key 1''),
                ([''wg'', ''.conf''], RegularFile False ''key 2'')],
      stdout = [], stderr = []\<rparr>
   = Inr (1, 1,
     \<lparr>files = [([''wg''], Directory),
                ([''wg'', ''.conf-1''], RegularFile False ''key 1''),
                ([''wg'', ''.conf''], RegularFile False ''key 2'')],
      stdout = [''Renamed: @example.com.conf -> .conf-1''], stderr = []\<rparr>)
   \<and> rename_in_directory [''wg''] False True
     \<lparr>files = [([''wg''], Directory),
                ([''wg'', ''@example.com.conf''], RegularFile False ''key 1''),
                ([''wg'', ''.conf''], RegularFile False ''key 2'')],
      stdout = [], stderr = []\<rparr>
   = Inr (1, 1,
     \<lparr>files = [([''wg''], Directory),
                ([''wg'', ''@example.com.conf''], RegularFile False ''key 1''),
                ([''wg'', ''.conf''], RegularFile False ''key 2'')],
      stdout = [''[DRY-RUN] @example.com.conf -> .conf-1''], stderr = []\<rparr>)
   \<and> matches_conf ''@example.com.conf'' \<and> py_suffix ''@example.com.conf'' = ''.conf''
   \<and> \<not> matches_conf ''.conf-1'' \<and> py_suffix ''.conf-1'' = []"
proof (intro conjI)
  show "rename_in_directory [''wg''] False False
     \<lparr>files = [([''wg''], Directory),
                ([''wg'', ''@example.com.conf''], RegularFile False ''key 1''),
                ([''wg'', ''.conf''], RegularFile False ''key 2'')],
      stdout = [], stderr = []\<rparr>
   = Inr (1, 1,
     \<lparr>files = [([''wg''], Directory),
                ([''wg'', ''.conf-1''], RegularFile False ''key 1''),
                ([''wg'', ''.conf''], RegularFile False ''key 2'')],
      stdout = [''Renamed: @example.com.conf -> .conf-1''], stderr = []\<rparr>)"
    by code_simp
  show "rename_in_directory [''wg''] False True
     \<lparr>files = [([''wg''], Directory),
                ([''wg'', ''@example.com.conf''], RegularFile False ''key 1''),
                ([''wg'', ''.conf''], RegularFile False ''key 2'')],
      stdout = [], stderr = []\<rparr>
   = Inr (1, 1,
     \<lparr>files = [([''wg''], Directory),
                ([''wg'', ''@example.com.conf''], RegularFile False ''key 1''),
                ([''wg'', ''.conf''], RegularFile False ''key 2'')],
      stdout = [''[DRY-RUN] @example.com.conf -> .conf-1''], stderr = []\<rparr>)"
    by code_simp
  show "matches_conf ''@example.com.conf''" by (simp add: matches_conf_def)
  show "py_suffix ''@example.com.conf'' = ''.conf''" by (simp add: py_suffix_def rfind_def)
  show "\<not> matches_conf ''.conf-1''" by (simp add: matches_conf_def)
  show "py_suffix ''.conf-1'' = []" by (simp add: py_suffix_def rfind_def)
qed

text \<open>
  C10. In dry-run mode the targets are chosen on the file system as it is, and nothing is
  renamed in between. With \<^verbatim>\<open>a@x.conf\<close> and \<^verbatim>\<open>a@y.conf\<close> in a directory without \<^verbatim>\<open>a.conf\<close>,
  a dry run reports the target \<^verbatim>\<open>a.conf\<close> for both files; a real run renames the first to
  \<^verbatim>\<open>a.conf\<close> and the second to \<^verbatim>\<open>a-1.conf\<close>.
\<close>

theorem dry_run_targets_differ:
  "rename_in_directory [''wg''] False True
     \<lparr>files = [([''wg''], Directory),
                ([''wg'', ''a@x.conf''], RegularFile False ''key 1''),
                ([''wg'', ''a@y.conf''], RegularFile False ''key 2'')],
      stdout = [], stderr = []\<rparr>
   = Inr (2, 0,
     \<lparr>files = [([''wg''], Directory),
                ([''wg'', ''a@x.conf''], RegularFile False ''key 1''),
                ([''wg'', ''a@y.conf''], RegularFile False ''key 2'')],
      stdout = [''[DRY-RUN] a@x.conf -> a.conf'', ''[DRY-RUN] a@y.conf -> a.conf''],
      stderr = []\<rparr>)
   \<and> rename_in_directory [''wg''] False False
     \<lparr>files = [([''wg''], Directory),
                ([''wg'', ''a@x.conf''], RegularFile False ''key 1''),
                ([''wg'', ''a@y.conf''], RegularFile False ''key 2'')],
      stdout = [], stderr = []\<rparr>
   = Inr (2, 0,
     \<lparr>files = [([''wg''], Directory),
                ([''wg'', ''a.conf''], RegularFile False ''key 1''),
                ([''wg'', ''a-1.conf''], RegularFile False ''key 2'')],
      stdout = [''Renamed: a@x.conf -> a.conf'', ''Renamed: a@y.conf -> a-1.conf''],
      stderr = []\<rparr>)"
proof (intro conjI)
  show "rename_in_directory [''wg''] False True
     \<lparr>files = [([''wg''], Directory),
                ([''wg'', ''a@x.conf''], RegularFile False ''key 1''),
                ([''wg'', ''a@y.conf''], RegularFile False ''key 2'')],
      stdout = [], stderr = []\<rparr>
   = Inr (2, 0,
     \<lparr>files = [([''wg''], Directory),
                ([''wg'', ''a@x.conf''], RegularFile False ''key 1''),
                ([''wg'', ''a@y.conf''], RegularFile False ''key 2'')],
      stdout = [''[DRY-RUN] a@x.conf -> a.conf'', ''[DRY-RUN] a@y.conf -> a.conf''],
      stderr = []\<rparr>)"
    by code_simp
  show "rename_in_directory [''wg''] False False
     \<lparr>files = [([''wg''], Directory),
                ([''wg'', ''a@x.conf''], RegularFile False ''key 1''),
                ([''wg'', ''a@y.conf''], RegularFile False ''key 2'')],
      stdout = [], stderr = []\<rparr>
   = Inr (2, 0,
     \<lparr>files = [([''wg''], Directory),
                ([''wg'', ''a.conf''], RegularFile False ''key 1''),
                ([''wg'', ''a-1.conf''], RegularFile False ''key 2'')],
      stdout = [''Renamed: a@x.conf -> a.conf'', ''Renamed: a@y.conf -> a-1.conf''],
      stderr = []\<rparr>)"
    by code_simp
qed

text \<open>
  C5, as the code has it. For every file system with sound names, a dry run completes and
  leaves the file system as it was, and the two counts it returns are the counts of every
  real run on the same file system that completes: a real run either returns the same
  counts, or ends early with the \<^verbatim>\<open>PermissionError\<close> of a rename the operating system
  refuses (and then returns no count); it does return when no rename is refused.
\<close>

theorem dry_run_no_mutation_same_counts:
  assumes "well_formed (files w)"
  shows "\<exists>renamed skipped w'.
           rename_in_directory root deep True w = Inr (renamed, skipped, w')
         \<and> files w' = files w
         \<and> (case rename_in_directory root deep False w of
               Inr (renamed', skipped', w'') \<Rightarrow> renamed' = renamed \<and> skipped' = skipped
             | Inl (e, x) \<Rightarrow> e = PermissionError
                 \<and> (\<exists>f \<in> set (to_rename (files w) (scanned (files w) root deep)).
                       refuses (files w) f))
         \<and> ((\<forall>f \<in> set (to_rename (files w) (scanned (files w) root deep)).
                \<not> refuses (files w) f)
              \<longrightarrow> (\<exists>w''. rename_in_directory root deep False w = Inr (renamed, skipped, w'')))"
proof -
  let ?it = "scanned (files w) root deep"
  have ok: "listing_ok (files w) ?it" using assms by (rule scanned_listing_ok)
  from dry_run_completes[OF ok, of 0 0]
  obtain r s w' where d: "rename_loop True ?it w 0 0 = Inr (r, s, w')" and f: "files w' = files w"
    by blast
  from rename_loop_counts[OF ok d]
  have c: "r = length (to_rename (files w) ?it)" "s = length (unchanged (files w) ?it)"
    by simp_all
  have real: "case rename_loop False ?it w 0 0 of
               Inr (renamed', skipped', w'') \<Rightarrow> renamed' = r \<and> skipped' = s
             | Inl (e, x) \<Rightarrow> e = PermissionError
                 \<and> (\<exists>f \<in> set (to_rename (files w) ?it). refuses (files w) f)"
  proof (cases "rename_loop False ?it w 0 0")
    case (Inr x)
    obtain r' s' w'' where x: "x = (r', s', w'')" by (cases x)
    from rename_loop_counts[OF ok Inr[unfolded x]] c show ?thesis
      unfolding Inr x by simp
  next
    case (Inl y)
    obtain e r' s' w'' where y: "y = (e, r', s', w'')" by (cases y)
    from first_refusal[OF ok Inl[unfolded y]] show ?thesis
      unfolding Inl y by auto
  qed
  have tot: "(\<forall>f \<in> set (to_rename (files w) ?it). \<not> refuses (files w) f)
      \<longrightarrow> (\<exists>w''. rename_loop False ?it w 0 0 = Inr (r, s, w''))"
  proof
    assume n: "\<forall>f \<in> set (to_rename (files w) ?it). \<not> refuses (files w) f"
    from real_run_completes[OF ok, of 0 0] n
    obtain r' s' w'' where x: "rename_loop False ?it w 0 0 = Inr (r', s', w'')" by blast
    from rename_loop_counts[OF ok x] c have "r' = r" "s' = s" by simp_all
    with x show "\<exists>w''. rename_loop False ?it w 0 0 = Inr (r, s, w'')" by simp
  qed
  from d f real tot show ?thesis
    unfolding rename_in_directory_loop by (intro exI[of _ r] exI[of _ s] exI[of _ w']) simp
qed


theorem dry_run_no_mutation_same_counts_witness:
  "well_formed [([''wg''], Directory),
                ([''wg'', ''a@x.conf''], RegularFile False ''key 1''),
                ([''wg'', ''b.conf''], RegularFile False ''key 2''),
                ([''wg'', ''d@z.conf''], Directory),
                ([''wg'', ''c@y.conf''], RegularFile False ''key 3'')]
   \<and> list_all (\<lambda>f. \<not> refuses [([''wg''], Directory),
                ([''wg'', ''a@x.conf''], RegularFile False ''key 1''),
                ([''wg'', ''b.conf''], RegularFile False ''key 2''),
                ([''wg'', ''d@z.conf''], Directory),
                ([''wg'', ''c@y.conf''], RegularFile False ''key 3'')] f)
        [[''wg'', ''a@x.conf''], [''wg'', ''c@y.conf'']]
   \<and> files (final_world (rename_in_directory [''wg''] False True
        \<lparr>files = [([''wg''], Directory),
                ([''wg'', ''a@x.conf''], RegularFile False ''key 1''),
                ([''wg'', ''b.conf''], RegularFile False ''key 2''),
                ([''wg'', ''d@z.conf''], Directory),
                ([''wg'', ''c@y.conf''], RegularFile False ''key 3'')],
         stdout = [], stderr = []\<rparr>))
       = [([''wg''], Directory),
                ([''wg'', ''a@x.conf''], RegularFile False ''key 1''),
                ([''wg'', ''b.conf''], RegularFile False ''key 2''),
                ([''wg'', ''d@z.conf''], Directory),
                ([''wg'', ''c@y.conf''], RegularFile False ''key 3'')]
   \<and> (\<exists>w'. rename_in_directory [''wg''] False True
        \<lparr>files = [([''wg''], Directory),
                ([''wg'', ''a@x.conf''], RegularFile False ''key 1''),
                ([''wg'', ''b.conf''], RegularFile False ''key 2''),
                ([''wg'', ''d@z.conf''], Directory),
                ([''wg'', ''c@y.conf''], RegularFile False ''key 3'')],
         stdout = [], stderr = []\<rparr> = Inr (2, 1, w'))
   \<and> (\<exists>w''. rename_in_directory [''wg''] False False
        \<lparr>files = [([''wg''], Directory),
                ([''wg'', ''a@x.conf''], RegularFile False ''key 1''),
                ([''wg'', ''b.conf''], RegularFile False ''key 2''),
                ([''wg'', ''d@z.conf''], Directory),
                ([''wg'', ''c@y.conf''], RegularFile False ''key 3'')],
         stdout = [], stderr = []\<rparr> = Inr (2, 1, w''))"
proof -
  let ?fs = "[([''wg''], Directory),
                ([''wg'', ''a@x.conf''], RegularFile False ''key 1''),
                ([''wg'', ''b.conf''], RegularFile False ''key 2''),
                ([''wg'', ''d@z.conf''], Directory),
                ([''wg'', ''c@y.conf''], RegularFile False ''key 3'')]"
  let ?w = "\<lparr>files = ?fs, stdout = [], stderr = []\<rparr>"
  have wf: "well_formed (files ?w)" by code_simp
  have tr: "to_rename (files ?w) (scanned (files ?w) [''wg''] False)
      = [[''wg'', ''a@x.conf''], [''wg'', ''c@y.conf'']]" by code_simp
  have nr: "list_all (\<lambda>f. \<not> refuses ?fs f) [[''wg'', ''a@x.conf''], [''wg'', ''c@y.conf'']]"
    by code_simp
  have dry: "\<exists>w'. rename_in_directory [''wg''] False True ?w = Inr (2, 1, w')"
    by (rule exI[of _ "\<lparr>files = ?fs,
        stdout = [''[DRY-RUN] a@x.conf -> a.conf'', ''[DRY-RUN] c@y.conf -> c.conf''],
        stderr = []\<rparr>"]) code_simp
  from dry_run_no_mutation_same_counts[OF wf, of "[''wg'']" False]
  obtain r s w' where t: "rename_in_directory [''wg''] False True ?w = Inr (r, s, w')"
    "files w' = files ?w"
    "(\<forall>f \<in> set (to_rename (files ?w) (scanned (files ?w) [''wg''] False)).
        \<not> refuses (files ?w) f)
      \<longrightarrow> (\<exists>w''. rename_in_directory [''wg''] False False ?w = Inr (r, s, w''))"
    by (elim exE conjE)
  from t(1) dry have rs: "r = 2" "s = 1" by auto
  have same: "files (final_world (rename_in_directory [''wg''] False True ?w)) = ?fs"
    unfolding t(1) using t(2) by simp
  have nr': "\<forall>f \<in> set (to_rename (files ?w) (scanned (files ?w) [''wg''] False)). \<not> refuses (files ?w) f"
    unfolding tr using nr by (simp add: list_all_iff)
  from mp[OF t(3) nr']
  have real: "\<exists>w''. rename_in_directory [''wg''] False False ?w = Inr (2, 1, w'')"
    unfolding rs .
  from wf nr same dry real show ?thesis by simp
qed

text \<open>
  C5 as the claim states it fails: not on every file system does a real run report the
  count of the dry run. With three files to rename of which the operating system refuses
  the second, the dry run returns \<open>renamed = 3\<close> and changes nothing; the real run renames
  the first file, then ends with \<^verbatim>\<open>PermissionError\<close> with its counter at 1, and returns
  no count.
\<close>

theorem dry_run_count_not_reached:
  "rename_in_directory [''wg''] False True
     \<lparr>files = [([''wg''], Directory),
                ([''wg'', ''a@x.conf''], RegularFile False ''key 1''),
                ([''wg'', ''b@y.conf''], RegularFile True ''key 2''),
                ([''wg'', ''c@z.conf''], RegularFile False ''key 3'')],
      stdout = [], stderr = []\<rparr>
   = Inr (3, 0,
     \<lparr>files = [([''wg''], Directory),
                ([''wg'', ''a@x.conf''], RegularFile False ''key 1''),
                ([''wg'', ''b@y.conf''], RegularFile True ''key 2''),
                ([''wg'', ''c@z.conf''], RegularFile False ''key 3'')],
      stdout = [''[DRY-RUN] a@x.conf -> a.conf'', ''[DRY-RUN] b@y.conf -> b.conf'',
                ''[DRY-RUN] c@z.conf -> c.conf''],
      stderr = []\<rparr>)
   \<and> rename_in_directory [''wg''] False False
     \<lparr>files = [([''wg''], Directory),
                ([''wg'', ''a@x.conf''], RegularFile False ''key 1''),
                ([''wg'', ''b@y.conf''], RegularFile True ''key 2''),
                ([''wg'', ''c@z.conf''], RegularFile False ''key 3'')],
      stdout = [], stderr = []\<rparr>
   = Inl (PermissionError, 1, 0,
     \<lparr>files = [([''wg''], Directory),
                ([''wg'', ''a.conf''], RegularFile False ''key 1''),
                ([''wg'', ''b@y.conf''], RegularFile True ''key 2''),
                ([''wg'', ''c@z.conf''], RegularFile False ''key 3'')],
      stdout = [''Renamed: a@x.conf -> a.conf''], stderr = []\<rparr>)
   \<and> main \<lparr>path = [''wg''], recursive = False, dry_run = True\<rparr>
     \<lparr>files = [([''wg''], Directory),
                ([''wg'', ''a@x.conf''], RegularFile False ''key 1''),
                ([''wg'', ''b@y.conf''], RegularFile True ''key 2''),
                ([''wg'', ''c@z.conf''], RegularFile False ''key 3'')],
      stdout = [], stderr = []\<rparr>
   = (Return 0,
     \<lparr>files = [([''wg''], Directory),
                ([''wg'', ''a@x.conf''], RegularFile False ''key 1''),
                ([''wg'', ''b@y.conf''], RegularFile True ''key 2''),
                ([''wg'', ''c@z.conf''], RegularFile False ''key 3'')],
      stdout = [''[DRY-RUN] a@x.conf -> a.conf'', ''[DRY-RUN] b@y.conf -> b.conf'',
                ''[DRY-RUN] c@z.conf -> c.conf'',
                ''Dry-run complete. Renamed: 3; Unchanged: 0.''],
      stderr = []\<rparr>)"
  by (intro conjI; code_simp)

text \<open>
  C9. For every run of \<open>rename_in_directory\<close> that returns, on a file system with sound
  names: \<open>renamed + skipped\<close> is the number of listed entries (those that match
  \<^verbatim>\<open>*.conf\<close>) that are regular files; \<open>renamed\<close> counts the regular files whose stem holds
  an \<^verbatim>\<open>@\<close> and \<open>skipped\<close> those whose stem holds none. The lines printed are one for each
  regular file with an \<^verbatim>\<open>@\<close> in its stem, so a listed entry that is no regular file is
  counted in neither and has no line.
\<close>

theorem counts_cover_regular_files:
  assumes "well_formed (files w)"
    and "rename_in_directory root deep dry w = Inr (renamed, skipped, w')"
  shows "renamed + skipped = length (filter (is_file (files w)) (scanned (files w) root deep))
       \<and> renamed = length (filter (\<lambda>p. is_file (files w) p \<and> compute_target_name p \<noteq> None)
                              (scanned (files w) root deep))
       \<and> skipped = length (filter (\<lambda>p. is_file (files w) p \<and> compute_target_name p = None)
                              (scanned (files w) root deep))
       \<and> (\<exists>targets. length targets = renamed
             \<and> stdout w' = stdout w @
                 map2 (report_line dry)
                   (filter (\<lambda>p. is_file (files w) p \<and> compute_target_name p \<noteq> None)
                      (scanned (files w) root deep))
                   targets)"
proof -
  let ?it = "scanned (files w) root deep"
  have ok: "listing_ok (files w) ?it" using assms(1) by (rule scanned_listing_ok)
  have run: "rename_loop dry ?it w 0 0 = Inr (renamed, skipped, w')"
    using assms(2) by (simp add: rename_in_directory_loop)
  from rename_loop_counts[OF ok run]
  have c: "renamed = length (to_rename (files w) ?it)" "skipped = length (unchanged (files w) ?it)"
    by simp_all
  from rename_loop_output[OF ok run]
  obtain targets where t: "length targets = length (to_rename (files w) ?it)"
    "stdout w' = stdout w @ map2 (report_line dry) (to_rename (files w) ?it) targets"
    by blast
  have "renamed + skipped = length (filter (is_file (files w)) ?it)"
    unfolding c by (rule length_to_rename_unchanged)
  moreover have "\<exists>targets. length targets = renamed
             \<and> stdout w' = stdout w @ map2 (report_line dry) (to_rename (files w) ?it) targets"
    using t c by (intro exI[of _ targets]) simp
  ultimately show ?thesis using c unfolding to_rename_def unchanged_def by simp
qed

theorem counts_cover_regular_files_witness:
  "well_formed [([''wg''], Directory),
                ([''wg'', ''a@x.conf''], RegularFile False ''key 1''),
                ([''wg'', ''b.conf''], RegularFile False ''key 2''),
                ([''wg'', ''d@z.conf''], Directory),
                ([''wg'', ''e.conf''], Special),
                ([''wg'', ''c@y.conf''], RegularFile False ''key 3'')]
   \<and> rename_in_directory [''wg''] False False
        \<lparr>files = [([''wg''], Directory),
                ([''wg'', ''a@x.conf''], RegularFile False ''key 1''),
                ([''wg'', ''b.conf''], RegularFile False ''key 2''),
                ([''wg'', ''d@z.conf''], Directory),
                ([''wg'', ''e.conf''], Special),
                ([''wg'', ''c@y.conf''], RegularFile False ''key 3'')],
         stdout = [], stderr = []\<rparr>
       = Inr (2, 1,
        \<lparr>files = [([''wg''], Directory),
                ([''wg'', ''a.conf''], RegularFile False ''key 1''),
                ([''wg'', ''b.conf''], RegularFile False ''key 2''),
                ([''wg'', ''d@z.conf''], Directory),
                ([''wg'', ''e.conf''], Special),
                ([''wg'', ''c.conf''], RegularFile False ''key 3'')],
         stdout = [''Renamed: a@x.conf -> a.conf'', ''Renamed: c@y.conf -> c.conf''],
         stderr = []\<rparr>)
   \<and> length (scanned [([''wg''], Directory),
                ([''wg'', ''a@x.conf''], RegularFile False ''key 1''),
                ([''wg'', ''b.conf''], RegularFile False ''key 2''),
                ([''wg'', ''d@z.conf''], Directory),
                ([''wg'', ''e.conf''], Special),
                ([''wg'', ''c@y.conf''], RegularFile False ''key 3'')] [''wg''] False) = 5
   \<and> (2::nat) + 1 = length (filter (is_file [([''wg''], Directory),
                ([''wg'', ''a@x.conf''], RegularFile False ''key 1''),
                ([''wg'', ''b.conf''], RegularFile False ''key 2''),
                ([''wg'', ''d@z.conf''], Directory),
                ([''wg'', ''e.conf''], Special),
                ([''wg'', ''c@y.conf''], RegularFile False ''key 3'')])
         (scanned [([''wg''], Directory),
                ([''wg'', ''a@x.conf''], RegularFile False ''key 1''),
                ([''wg'', ''b.conf''], RegularFile False ''key 2''),
                ([''wg'', ''d@z.conf''], Directory),
                ([''wg'', ''e.conf''], Special),
                ([''wg'', ''c@y.conf''], RegularFile False ''key 3'')] [''wg''] False))"
proof -
  let ?fs = "[([''wg''], Directory),
                ([''wg'', ''a@x.conf''], RegularFile False ''key 1''),
                ([''wg'', ''b.conf''], RegularFile False ''key 2''),
                ([''wg'', ''d@z.conf''], Directory),
                ([''wg'', ''e.conf''], Special),
                ([''wg'', ''c@y.conf''], RegularFile False ''key 3'')]"
  let ?w = "\<lparr>files = ?fs, stdout = [], stderr = []\<rparr>"
  let ?w' = "\<lparr>files = [([''wg''], Directory),
                ([''wg'', ''a.conf''], RegularFile False ''key 1''),
                ([''wg'', ''b.conf''], RegularFile False ''key 2''),
                ([''wg'', ''d@z.conf''], Directory),
                ([''wg'', ''e.conf''], Special),
                ([''wg'', ''c.conf''], RegularFile False ''key 3'')],
         stdout = [''Renamed: a@x.conf -> a.conf'', ''Renamed: c@y.conf -> c.conf''],
         stderr = []\<rparr>"
  have wf: "well_formed (files ?w)" by code_simp
  have run: "rename_in_directory [''wg''] False False ?w = Inr (2, 1, ?w')" by code_simp
  have n: "length (scanned ?fs [''wg''] False) = 5" by code_simp
  from counts_cover_regular_files[OF wf run, THEN conjunct1]
  have "(2::nat) + 1 = length (filter (is_file ?fs) (scanned ?fs [''wg''] False))" by simp
  with wf run n show ?thesis by simp
qed

text \<open>
  C4, as the code has it. When the root is a directory and the run completes, the program
  prints one line for each file it renames (or, in dry-run mode, plans to rename), in the
  order of the listing: \<^verbatim>\<open>Renamed: <old> -> <new>\<close>, or \<^verbatim>\<open>[DRY-RUN] <old> -> <new>\<close> in dry-run
  mode; then the summary line. A listed file that is skipped (no \<^verbatim>\<open>@\<close> in its stem) and a
  listed entry that is no regular file have no line.
\<close>

theorem one_line_per_renamed_file:
  assumes "well_formed (files w)" and "is_dir (files w) (path a)"
    and "main a w = (Return 0, w')"
  shows "\<exists>targets renamed skipped.
           length targets = renamed
         \<and> renamed = length (filter (\<lambda>p. is_file (files w) p \<and> compute_target_name p \<noteq> None)
                                (scanned (files w) (path a) (recursive a)))
         \<and> stdout w' = stdout w @
             map2 (\<lambda>file target.
                     (if dry_run a then ''[DRY-RUN] '' else ''Renamed: '')
                       @ path_name file @ '' -> '' @ path_name target)
               (filter (\<lambda>p. is_file (files w) p \<and> compute_target_name p \<noteq> None)
                  (scanned (files w) (path a) (recursive a)))
               targets
             @ [summary_line (dry_run a) renamed skipped]"
proof -
  let ?it = "scanned (files w) (path a) (recursive a)"
  have ok: "listing_ok (files w) ?it" using assms(1) by (rule scanned_listing_ok)
  from main_returns[OF assms(2,3)]
  obtain r s w1 where run: "rename_in_directory (path a) (recursive a) (dry_run a) w = Inr (r, s, w1)"
    and w': "w' = print_line (summary_line (dry_run a) r s) w1" by blast
  from run have loop: "rename_loop (dry_run a) ?it w 0 0 = Inr (r, s, w1)"
    by (simp add: rename_in_directory_loop)
  from rename_loop_counts[OF ok loop] have c: "r = length (to_rename (files w) ?it)" by simp
  from rename_loop_output[OF ok loop]
  obtain targets where t: "length targets = length (to_rename (files w) ?it)"
    "stdout w1 = stdout w @ map2 (report_line (dry_run a)) (to_rename (files w) ?it) targets"
    by blast
  have fmt: "report_line (dry_run a) =
      (\<lambda>file target. (if dry_run a then ''[DRY-RUN] '' else ''Renamed: '')
                       @ path_name file @ '' -> '' @ path_name target)"
    by (intro ext) (simp add: report_line_def dry_run_line_def renamed_line_def)
  have "stdout w' = stdout w @ map2 (report_line (dry_run a)) (to_rename (files w) ?it) targets
          @ [summary_line (dry_run a) r s]"
    unfolding w' using t(2) by simp
  then have out: "stdout w' = stdout w @
             map2 (\<lambda>file target.
                     (if dry_run a then ''[DRY-RUN] '' else ''Renamed: '')
                       @ path_name file @ '' -> '' @ path_name target)
               (to_rename (files w) ?it) targets
             @ [summary_line (dry_run a) r s]"
    unfolding fmt .
  from t(1) c out show ?thesis
    unfolding to_rename_def
    by (intro exI[of _ targets] exI[of _ r] exI[of _ s] conjI) simp_all
qed


theorem one_line_per_renamed_file_witness:
  "well_formed [([''wg''], Directory),
                ([''wg'', ''mail@example.com.conf''], RegularFile False ''key 1''),
                ([''wg'', ''plain.conf''], RegularFile False ''key 2''),
                ([''wg'', ''c@y.conf''], RegularFile False ''key 3'')]
   \<and> is_dir [([''wg''], Directory),
                ([''wg'', ''mail@example.com.conf''], RegularFile False ''key 1''),
                ([''wg'', ''plain.conf''], RegularFile False ''key 2''),
                ([''wg'', ''c@y.conf''], RegularFile False ''key 3'')] [''wg'']
   \<and> main \<lparr>path = [''wg''], recursive = False, dry_run = True\<rparr>
        \<lparr>files = [([''wg''], Directory),
                ([''wg'', ''mail@example.com.conf''], RegularFile False ''key 1''),
                ([''wg'', ''plain.conf''], RegularFile False ''key 2''),
                ([''wg'', ''c@y.conf''], RegularFile False ''key 3'')],
         stdout = [], stderr = []\<rparr>
       = (Return 0,
        \<lparr>files = [([''wg''], Directory),
                ([''wg'', ''mail@example.com.conf''], RegularFile False ''key 1''),
                ([''wg'', ''plain.conf''], RegularFile False ''key 2''),
                ([''wg'', ''c@y.conf''], RegularFile False ''key 3'')],
         stdout = [''[DRY-RUN] mail@example.com.conf -> mail.conf'',
                   ''[DRY-RUN] c@y.conf -> c.conf'',
                   ''Dry-run complete. Renamed: 2; Unchanged: 1.''],
         stderr = []\<rparr>)
   \<and> length (scanned [([''wg''], Directory),
                ([''wg'', ''mail@example.com.conf''], RegularFile False ''key 1''),
                ([''wg'', ''plain.conf''], RegularFile False ''key 2''),
                ([''wg'', ''c@y.conf''], RegularFile False ''key 3'')] [''wg''] False) = 3
   \<and> length [''[DRY-RUN] mail@example.com.conf -> mail.conf'',
                   ''[DRY-RUN] c@y.conf -> c.conf'',
                   ''Dry-run complete. Renamed: 2; Unchanged: 1.'']
       = length (filter (\<lambda>p. is_file [([''wg''], Directory),
                ([''wg'', ''mail@example.com.conf''], RegularFile False ''key 1''),
                ([''wg'', ''plain.conf''], RegularFile False ''key 2''),
                ([''wg'', ''c@y.conf''], RegularFile False ''key 3'')] p
                  \<and> compute_target_name p \<noteq> None)
           (scanned [([''wg''], Directory),
                ([''wg'', ''mail@example.com.conf''], RegularFile False ''key 1''),
                ([''wg'', ''plain.conf''], RegularFile False ''key 2''),
                ([''wg'', ''c@y.conf''], RegularFile False ''key 3'')] [''wg''] False)) + 1"
proof -
  let ?fs = "[([''wg''], Directory),
                ([''wg'', ''mail@example.com.conf''], RegularFile False ''key 1''),
                ([''wg'', ''plain.conf''], RegularFile False ''key 2''),
                ([''wg'', ''c@y.conf''], RegularFile False ''key 3'')]"
  let ?w = "\<lparr>files = ?fs, stdout = [], stderr = []\<rparr>"
  let ?out = "[''[DRY-RUN] mail@example.com.conf -> mail.conf'',
                   ''[DRY-RUN] c@y.conf -> c.conf'',
                   ''Dry-run complete. Renamed: 2; Unchanged: 1.'']"
  let ?w' = "\<lparr>files = ?fs, stdout = ?out, stderr = []\<rparr>"
  let ?a = "\<lparr>path = [''wg''], recursive = False, dry_run = True\<rparr>"
  have wf: "well_formed (files ?w)" by code_simp
  have d: "is_dir (files ?w) (path ?a)" by code_simp
  have m: "main ?a ?w = (Return 0, ?w')" by code_simp
  have n: "length (scanned ?fs [''wg''] False) = 3" by code_simp
  from one_line_per_renamed_file[OF wf d m]
  obtain targets renamed skipped where t: "length targets = renamed"
    "renamed = length (filter (\<lambda>p. is_file (files ?w) p \<and> compute_target_name p \<noteq> None)
                                (scanned (files ?w) (path ?a) (recursive ?a)))"
    "stdout ?w' = stdout ?w @
             map2 (\<lambda>file target.
                     (if dry_run ?a then ''[DRY-RUN] '' else ''Renamed: '')
                       @ path_name file @ '' -> '' @ path_name target)
               (filter (\<lambda>p. is_file (files ?w) p \<and> compute_target_name p \<noteq> None)
                  (scanned (files ?w) (path ?a) (recursive ?a)))
               targets
             @ [summary_line (dry_run ?a) renamed skipped]"
    by (elim exE conjE)
  from arg_cong[OF t(3), of length] t(1,2)
  have "length ?out = length (filter (\<lambda>p. is_file ?fs p \<and> compute_target_name p \<noteq> None)
           (scanned ?fs [''wg''] False)) + 1"
    by simp
  with wf d m n show ?thesis by simp
qed

text \<open>
  C4 as the claim states it fails: a listed file that is skipped prints no line. With
  \<^verbatim>\<open>plain.conf\<close> alone in the directory the listing holds one file and the output is the
  summary line only.
\<close>

theorem skipped_file_prints_no_line:
  "scanned [([''wg''], Directory), ([''wg'', ''plain.conf''], RegularFile False ''key'')]
     [''wg''] False = [[''wg'', ''plain.conf'']]
   \<and> main \<lparr>path = [''wg''], recursive = False, dry_run = False\<rparr>
        \<lparr>files = [([''wg''], Directory), ([''wg'', ''plain.conf''], RegularFile False ''key'')],
         stdout = [], stderr = []\<rparr>
       = (Return 0,
        \<lparr>files = [([''wg''], Directory), ([''wg'', ''plain.conf''], RegularFile False ''key'')],
         stdout = [''Done. Renamed: 0; Unchanged: 1.''], stderr = []\<rparr>)
   \<and> main \<lparr>path = [''wg''], recursive = False, dry_run = True\<rparr>
        \<lparr>files = [([''wg''], Directory), ([''wg'', ''plain.conf''], RegularFile False ''key'')],
         stdout = [], stderr = []\<rparr>
       = (Return 0,
        \<lparr>files = [([''wg''], Directory), ([''wg'', ''plain.conf''], RegularFile False ''key'')],
         stdout = [''Dry-run complete. Renamed: 0; Unchanged: 1.''], stderr = []\<rparr>)"
  by (intro conjI; code_simp)

text \<open>
  C7, as the code has it. When the path is no directory (missing, or something else),
  \<open>main\<close> prints one line to standard error, returns 1, and leaves the file system and
  standard output as they were. When it is a directory, the names are sound and no rename
  is refused (none can be in dry-run mode), the run completes, \<open>main\<close> prints the summary
  line with the two counts after the lines of the run, and returns 0, whatever the counts.
\<close>

theorem main_exit_status:
  "(\<not> is_dir (files w) (path a) \<longrightarrow>
      main a w = (Return 1,
        w\<lparr>stderr := stderr w @ [''Error: '' @ [CHR 0x27] @ path_str (path a) @ [CHR 0x27]
                                  @ '' is not a directory'']\<rparr>))
   \<and> (is_dir (files w) (path a) \<and> well_formed (files w)
        \<and> (dry_run a \<or>
             (\<forall>f \<in> set (to_rename (files w) (scanned (files w) (path a) (recursive a))).
                \<not> refuses (files w) f))
      \<longrightarrow> (\<exists>renamed skipped w'.
             rename_in_directory (path a) (recursive a) (dry_run a) w = Inr (renamed, skipped, w')
           \<and> stderr w' = stderr w
           \<and> main a w = (Return 0,
               w'\<lparr>stdout := stdout w' @
                 [(if dry_run a then ''Dry-run complete.'' else ''Done.'')
                    @ '' Renamed: '' @ format_int renamed
                    @ ''; Unchanged: '' @ format_int skipped @ ''.'']\<rparr>)))"
proof (intro conjI impI)
  assume "\<not> is_dir (files w) (path a)"
  then show "main a w = (Return 1,
        w\<lparr>stderr := stderr w @ [''Error: '' @ [CHR 0x27] @ path_str (path a) @ [CHR 0x27]
                                  @ '' is not a directory'']\<rparr>)"
    by (simp add: main_def not_a_directory_line_def)
next
  assume h: "is_dir (files w) (path a) \<and> well_formed (files w)
        \<and> (dry_run a \<or>
             (\<forall>f \<in> set (to_rename (files w) (scanned (files w) (path a) (recursive a))).
                \<not> refuses (files w) f))"
  let ?it = "scanned (files w) (path a) (recursive a)"
  from h have d: "is_dir (files w) (path a)" and wf: "well_formed (files w)" by simp_all
  have ok: "listing_ok (files w) ?it" using wf by (rule scanned_listing_ok)
  have "\<exists>r s w'. rename_loop (dry_run a) ?it w 0 0 = Inr (r, s, w')"
  proof (cases "dry_run a")
    case True
    with dry_run_completes[OF ok, of 0 0] show ?thesis by auto
  next
    case False
    with h have "\<And>p. p \<in> set (to_rename (files w) ?it) \<Longrightarrow> \<not> refuses (files w) p" by simp
    from real_run_completes[OF ok this, of 0 0] False show ?thesis by simp
  qed
  then obtain r s w' where loop: "rename_loop (dry_run a) ?it w 0 0 = Inr (r, s, w')" by blast
  then have run: "rename_in_directory (path a) (recursive a) (dry_run a) w = Inr (r, s, w')"
    by (simp add: rename_in_directory_loop)
  from rename_loop_stderr[OF ok, of "dry_run a" 0 0] loop have e: "stderr w' = stderr w" by simp
  have "main a w = (Return 0, print_line (summary_line (dry_run a) r s) w')"
    using run by (simp add: main_on_directory[OF d])
  then have m: "main a w = (Return 0,
               w'\<lparr>stdout := stdout w' @
                 [(if dry_run a then ''Dry-run complete.'' else ''Done.'')
                    @ '' Renamed: '' @ format_int r
                    @ ''; Unchanged: '' @ format_int s @ ''.'']\<rparr>)"
    by (simp add: print_line_def summary_line_def)
  from run e m show "\<exists>renamed skipped w'.
             rename_in_directory (path a) (recursive a) (dry_run a) w = Inr (renamed, skipped, w')
           \<and> stderr w' = stderr w
           \<and> main a w = (Return 0,
               w'\<lparr>stdout := stdout w' @
                 [(if dry_run a then ''Dry-run complete.'' else ''Done.'')
                    @ '' Renamed: '' @ format_int renamed
                    @ ''; Unchanged: '' @ format_int skipped @ ''.'']\<rparr>)"
    by (intro exI[of _ r] exI[of _ s] exI[of _ w'] conjI)
qed


theorem main_exit_status_witness:
  "\<not> is_dir [([''wg''], Directory), ([''wg'', ''notes.txt''], RegularFile False ''text'')]
        [''wg'', ''notes.txt'']
   \<and> main \<lparr>path = [''wg'', ''notes.txt''], recursive = False, dry_run = False\<rparr>
        \<lparr>files = [([''wg''], Directory), ([''wg'', ''notes.txt''], RegularFile False ''text'')],
         stdout = [], stderr = []\<rparr>
       = (Return 1,
        \<lparr>files = [([''wg''], Directory), ([''wg'', ''notes.txt''], RegularFile False ''text'')],
         stdout = [], stderr = [''Error: '' @ [CHR 0x27] @ ''wg/notes.txt'' @ [CHR 0x27]
                                  @ '' is not a directory'']\<rparr>)
   \<and> is_dir [([''wg''], Directory),
              ([''wg'', ''mail@example.com.conf''], RegularFile False ''key'')] [''wg'']
   \<and> well_formed [([''wg''], Directory),
              ([''wg'', ''mail@example.com.conf''], RegularFile False ''key'')]
   \<and> list_all (\<lambda>f. \<not> refuses [([''wg''], Directory),
              ([''wg'', ''mail@example.com.conf''], RegularFile False ''key'')] f)
        [[''wg'', ''mail@example.com.conf'']]
   \<and> main \<lparr>path = [''wg''], recursive = False, dry_run = False\<rparr>
        \<lparr>files = [([''wg''], Directory),
              ([''wg'', ''mail@example.com.conf''], RegularFile False ''key'')],
         stdout = [], stderr = []\<rparr>
       = (Return 0,
        \<lparr>files = [([''wg''], Directory), ([''wg'', ''mail.conf''], RegularFile False ''key'')],
         stdout = [''Renamed: mail@example.com.conf -> mail.conf'',
                   ''Done. Renamed: 1; Unchanged: 0.''],
         stderr = []\<rparr>)"
proof -
  let ?fs1 = "[([''wg''], Directory), ([''wg'', ''notes.txt''], RegularFile False ''text'')]"
  let ?w1 = "\<lparr>files = ?fs1, stdout = [], stderr = []\<rparr>"
  let ?a1 = "\<lparr>path = [''wg'', ''notes.txt''], recursive = False, dry_run = False\<rparr>"
  let ?fs2 = "[([''wg''], Directory), ([''wg'', ''mail@example.com.conf''], RegularFile False ''key'')]"
  let ?w2 = "\<lparr>files = ?fs2, stdout = [], stderr = []\<rparr>"
  let ?a2 = "\<lparr>path = [''wg''], recursive = False, dry_run = False\<rparr>"
  let ?v = "\<lparr>files = [([''wg''], Directory), ([''wg'', ''mail.conf''], RegularFile False ''key'')],
         stdout = [''Renamed: mail@example.com.conf -> mail.conf''], stderr = []\<rparr>"
  have n1: "\<not> is_dir (files ?w1) (path ?a1)" by code_simp
  have p: "path_str (path ?a1) = ''wg/notes.txt''" by code_simp
  from main_exit_status[of ?w1 ?a1, THEN conjunct1, rule_format, OF n1]
  have m1: "main ?a1 ?w1 = (Return 1,
        \<lparr>files = ?fs1, stdout = [], stderr = [''Error: '' @ [CHR 0x27] @ ''wg/notes.txt'' @ [CHR 0x27]
                                  @ '' is not a directory'']\<rparr>)"
    unfolding p by simp
  have d: "is_dir (files ?w2) (path ?a2)" by code_simp
  have wf: "well_formed (files ?w2)" by code_simp
  have tr: "to_rename (files ?w2) (scanned (files ?w2) (path ?a2) (recursive ?a2))
      = [[''wg'', ''mail@example.com.conf'']]" by code_simp
  have nr: "list_all (\<lambda>f. \<not> refuses ?fs2 f) [[''wg'', ''mail@example.com.conf'']]" by code_simp
  have nr': "\<forall>f \<in> set (to_rename (files ?w2) (scanned (files ?w2) (path ?a2) (recursive ?a2))).
                \<not> refuses (files ?w2) f"
    unfolding tr using nr by (simp add: list_all_iff)
  have run: "rename_in_directory (path ?a2) (recursive ?a2) (dry_run ?a2) ?w2 = Inr (1, 0, ?v)"
    by code_simp
  have h: "is_dir (files ?w2) (path ?a2) \<and> well_formed (files ?w2)
        \<and> (dry_run ?a2 \<or>
             (\<forall>f \<in> set (to_rename (files ?w2) (scanned (files ?w2) (path ?a2) (recursive ?a2))).
                \<not> refuses (files ?w2) f))"
    using d wf nr' by (intro conjI disjI2)
  from main_exit_status[of ?w2 ?a2, THEN conjunct2, rule_format, OF h]
  obtain r s w' where t:
    "rename_in_directory (path ?a2) (recursive ?a2) (dry_run ?a2) ?w2 = Inr (r, s, w')"
    "main ?a2 ?w2 = (Return 0,
               w'\<lparr>stdout := stdout w' @
                 [(if dry_run ?a2 then ''Dry-run complete.'' else ''Done.'')
                    @ '' Renamed: '' @ format_int r
                    @ ''; Unchanged: '' @ format_int s @ ''.'']\<rparr>)"
    by (elim exE conjE)
  from t(1) run have rs: "r = 1" "s = 0" "w' = ?v" by simp_all
  have f: "format_int 1 = ''1''" "format_int 0 = ''0''" by code_simp+
  have m2: "main ?a2 ?w2 = (Return 0,
        \<lparr>files = [([''wg''], Directory), ([''wg'', ''mail.conf''], RegularFile False ''key'')],
         stdout = [''Renamed: mail@example.com.conf -> mail.conf'',
                   ''Done. Renamed: 1; Unchanged: 0.''],
         stderr = []\<rparr>)"
    using t(2) unfolding rs f by simp
  from n1 m1 d wf nr m2 show ?thesis by simp
qed

text \<open>
  C7 as the claim states it fails: on a directory, \<open>main\<close> does not return 0 when the
  operating system refuses a rename. The exception passes through \<open>main\<close>; no summary line
  is printed.
\<close>

theorem refused_rename_no_exit_status:
  "is_dir [([''wg''], Directory), ([''wg'', ''a@x.conf''], RegularFile True ''key'')] [''wg'']
   \<and> main \<lparr>path = [''wg''], recursive = False, dry_run = False\<rparr>
        \<lparr>files = [([''wg''], Directory), ([''wg'', ''a@x.conf''], RegularFile True ''key'')],
         stdout = [], stderr = []\<rparr>
       = (Raise PermissionError,
        \<lparr>files = [([''wg''], Directory), ([''wg'', ''a@x.conf''], RegularFile True ''key'')],
         stdout = [], stderr = []\<rparr>)"
  by (intro conjI; code_simp)

text \<open>
  C8. When the operating system refuses the rename of a file, the error is neither caught
  nor retried. For every file system with sound names on which some file to rename is
  refused, a real run ends at the first such file \<open>g\<close> of the listing with the
  \<^verbatim>\<open>PermissionError\<close> that \<open>os_rename\<close> raised for it: the counters and the world are
  exactly those after the files before \<open>g\<close>, so \<open>g\<close> is not counted as renamed and no
  line is printed for it, \<open>g\<close> is still there under its old name, the files after \<open>g\<close>
  are not processed, and the exception passes through \<open>main\<close>, which prints no summary.
\<close>

theorem refused_rename_is_fatal:
  assumes "well_formed (files w)"
    and "f \<in> set (to_rename (files w) (scanned (files w) root deep))"
    and "refuses (files w) f"
  shows "\<exists>ps g rest renamed skipped w'.
           scanned (files w) root deep = ps @ g # rest
         \<and> g \<in> set (to_rename (files w) (scanned (files w) root deep)) \<and> refuses (files w) g
         \<and> (\<exists>t target. compute_target_name g = Some t
               \<and> choose_target (files w') g t = Inr target
               \<and> os_rename (files w') g target = Inl PermissionError)
         \<and> rename_in_directory root deep False w = Inl (PermissionError, renamed, skipped, w')
         \<and> rename_loop False ps w 0 0 = Inr (renamed, skipped, w')
         \<and> renamed = length (to_rename (files w) ps)
         \<and> (\<exists>targets. length targets = renamed
               \<and> stdout w' = stdout w @ map2 renamed_line (to_rename (files w) ps) targets)
         \<and> map_of (files w') g = map_of (files w) g
         \<and> (is_dir (files w) root \<longrightarrow>
               main \<lparr>path = root, recursive = deep, dry_run = False\<rparr> w
                 = (Raise PermissionError, w'))"
proof -
  let ?it = "scanned (files w) root deep"
  have ok: "listing_ok (files w) ?it" using assms(1) by (rule scanned_listing_ok)
  obtain y where res: "rename_loop False ?it w 0 0 = Inl y"
  proof (cases "rename_loop False ?it w 0 0")
    case (Inl y)
    then show ?thesis by (rule that)
  next
    case (Inr x)
    obtain r s w1 where "x = (r, s, w1)" by (cases x)
    with Inr have "rename_loop False ?it w 0 0 = Inr (r, s, w1)" by simp
    from completed_none_refused[OF ok this assms(2)] assms(3) show ?thesis by simp
  qed
  obtain e r s w' where y: "y = (e, r, s, w')" by (cases y)
  note res = res[unfolded y]
  from first_refusal[OF ok res]
  obtain ps g rest where e: "e = PermissionError" and it: "?it = ps @ g # rest"
    and p: "rename_loop False ps w 0 0 = Inr (r, s, w')"
    and g: "g \<in> set (to_rename (files w) ?it)" "refuses (files w) g"
    and m: "map_of (files w') g = map_of (files w) g"
    by blast
  have okp: "listing_ok (files w) ps" using ok unfolding it by (rule listing_ok_prefix)
  from rename_loop_counts[OF okp p] have c: "r = length (to_rename (files w) ps)" by simp
  from rename_loop_output[OF okp p]
  obtain targets where t: "length targets = length (to_rename (files w) ps)"
    "stdout w' = stdout w @ map2 (report_line False) (to_rename (files w) ps) targets"
    by blast
  have rl: "report_line False = renamed_line" by (intro ext) (simp add: report_line_def)
  have out: "\<exists>targets. length targets = r
               \<and> stdout w' = stdout w @ map2 renamed_line (to_rename (files w) ps) targets"
    using t c unfolding rl by (intro exI[of _ targets]) simp
  from g(1) have gi: "g \<in> set ?it" and gf: "is_file (files w) g"
    and gc: "compute_target_name g \<noteq> None" by (simp_all add: to_rename_def)
  from gc obtain tn where tn: "compute_target_name g = Some tn" by auto
  from listing_ok_D[OF ok gi] have gm: "matches_conf (path_name g)"
    and gv: "valid_name (path_name g)" by simp_all
  from compute_target_name_valid[OF gm tn gv] have "valid_name tn" "CHR ''@'' \<notin> set tn" .
  from choose_target_fresh[OF gv this, of "files w'"]
  obtain target where ct: "choose_target (files w') g tn = Inr target" by blast
  from gf g(2) m have "is_file (files w') g" "refuses (files w') g"
    by (simp_all add: is_file_def refuses_def)
  then have "os_rename (files w') g target = Inl PermissionError" by (rule os_rename_refused)
  with tn ct have call: "\<exists>t target. compute_target_name g = Some t
               \<and> choose_target (files w') g t = Inr target
               \<and> os_rename (files w') g target = Inl PermissionError"
    by (intro exI[of _ tn] exI[of _ target]) simp
  have run: "rename_in_directory root deep False w = Inl (PermissionError, r, s, w')"
    using res e by (simp add: rename_in_directory_loop)
  have mn: "is_dir (files w) root \<longrightarrow>
      main \<lparr>path = root, recursive = deep, dry_run = False\<rparr> w = (Raise PermissionError, w')"
    using run by (simp add: main_def)
  show ?thesis
    apply (rule exI[of _ ps], rule exI[of _ g], rule exI[of _ rest])
    apply (rule exI[of _ r], rule exI[of _ s], rule exI[of _ w'])
    using it g call run p c out m mn by (intro conjI)
qed


theorem refused_rename_is_fatal_witness:
  "well_formed [([''wg''], Directory),
                ([''wg'', ''a@x.conf''], RegularFile False ''key 1''),
                ([''wg'', ''b@y.conf''], RegularFile True ''key 2''),
                ([''wg'', ''c@z.conf''], RegularFile False ''key 3'')]
   \<and> to_rename [([''wg''], Directory),
                ([''wg'', ''a@x.conf''], RegularFile False ''key 1''),
                ([''wg'', ''b@y.conf''], RegularFile True ''key 2''),
                ([''wg'', ''c@z.conf''], RegularFile False ''key 3'')]
         (scanned [([''wg''], Directory),
                ([''wg'', ''a@x.conf''], RegularFile False ''key 1''),
                ([''wg'', ''b@y.conf''], RegularFile True ''key 2''),
                ([''wg'', ''c@z.conf''], RegularFile False ''key 3'')] [''wg''] False)
       = [[''wg'', ''a@x.conf''], [''wg'', ''b@y.conf''], [''wg'', ''c@z.conf'']]
   \<and> refuses [([''wg''], Directory),
                ([''wg'', ''a@x.conf''], RegularFile False ''key 1''),
                ([''wg'', ''b@y.conf''], RegularFile True ''key 2''),
                ([''wg'', ''c@z.conf''], RegularFile False ''key 3'')] [''wg'', ''b@y.conf'']
   \<and> rename_in_directory [''wg''] False False
        \<lparr>files = [([''wg''], Directory),
                ([''wg'', ''a@x.conf''], RegularFile False ''key 1''),
                ([''wg'', ''b@y.conf''], RegularFile True ''key 2''),
                ([''wg'', ''c@z.conf''], RegularFile False ''key 3'')],
         stdout = [], stderr = []\<rparr>
       = Inl (PermissionError, 1, 0,
        \<lparr>files = [([''wg''], Directory),
                ([''wg'', ''a.conf''], RegularFile False ''key 1''),
                ([''wg'', ''b@y.conf''], RegularFile True ''key 2''),
                ([''wg'', ''c@z.conf''], RegularFile False ''key 3'')],
         stdout = [''Renamed: a@x.conf -> a.conf''], stderr = []\<rparr>)
   \<and> main \<lparr>path = [''wg''], recursive = False, dry_run = False\<rparr>
        \<lparr>files = [([''wg''], Directory),
                ([''wg'', ''a@x.conf''], RegularFile False ''key 1''),
                ([''wg'', ''b@y.conf''], RegularFile True ''key 2''),
                ([''wg'', ''c@z.conf''], RegularFile False ''key 3'')],
         stdout = [], stderr = []\<rparr>
       = (Raise PermissionError,
        \<lparr>files = [([''wg''], Directory),
                ([''wg'', ''a.conf''], RegularFile False ''key 1''),
                ([''wg'', ''b@y.conf''], RegularFile True ''key 2''),
                ([''wg'', ''c@z.conf''], RegularFile False ''key 3'')],
         stdout = [''Renamed: a@x.conf -> a.conf''], stderr = []\<rparr>)"
proof -
  let ?fs = "[([''wg''], Directory),
                ([''wg'', ''a@x.conf''], RegularFile False ''key 1''),
                ([''wg'', ''b@y.conf''], RegularFile True ''key 2''),
                ([''wg'', ''c@z.conf''], RegularFile False ''key 3'')]"
  let ?w = "\<lparr>files = ?fs, stdout = [], stderr = []\<rparr>"
  let ?v = "\<lparr>files = [([''wg''], Directory),
                ([''wg'', ''a.conf''], RegularFile False ''key 1''),
                ([''wg'', ''b@y.conf''], RegularFile True ''key 2''),
                ([''wg'', ''c@z.conf''], RegularFile False ''key 3'')],
         stdout = [''Renamed: a@x.conf -> a.conf''], stderr = []\<rparr>"
  have wf: "well_formed (files ?w)" by code_simp
  have tr: "to_rename (files ?w) (scanned (files ?w) [''wg''] False)
       = [[''wg'', ''a@x.conf''], [''wg'', ''b@y.conf''], [''wg'', ''c@z.conf'']]" by code_simp
  have mem: "[''wg'', ''b@y.conf''] \<in> set (to_rename (files ?w) (scanned (files ?w) [''wg''] False))"
    unfolding tr by simp
  have rf: "refuses (files ?w) [''wg'', ''b@y.conf'']" by code_simp
  have d: "is_dir (files ?w) [''wg'']" by code_simp
  have run: "rename_in_directory [''wg''] False False ?w = Inl (PermissionError, 1, 0, ?v)"
    by code_simp
  from refused_rename_is_fatal[OF wf mem rf]
  obtain r s w' where t:
    "rename_in_directory [''wg''] False False ?w = Inl (PermissionError, r, s, w')"
    "is_dir (files ?w) [''wg''] \<longrightarrow>
       main \<lparr>path = [''wg''], recursive = False, dry_run = False\<rparr> ?w
         = (Raise PermissionError, w')"
    by (elim exE conjE)
  from t(1) run have "w' = ?v" by simp
  with mp[OF t(2) d]
  have m: "main \<lparr>path = [''wg''], recursive = False, dry_run = False\<rparr> ?w
      = (Raise PermissionError, ?v)" by simp
  from wf tr rf run m show ?thesis by simp
qed

text \<open>
  C6. Idempotence. For every file system with sound names: after a real run that
  completes, a second run with the same root and the same \<^verbatim>\<open>--recursive\<close> setting, in
  either mode and in whatever order the directory is then listed, renames nothing: it
  returns \<open>renamed = 0\<close>, counts every listed regular file as unchanged, prints no line
  and leaves the file system as it is. The reason is that after the first run no listed
  regular file has an \<^verbatim>\<open>@\<close> in its stem.
\<close>

theorem second_run_renames_nothing:
  assumes "well_formed (files w)"
    and "rename_in_directory root deep False w = Inr (renamed, skipped, w1)"
    and "map_of (files w2) = map_of (files w1)"
  shows "rename_in_directory root deep dry w2
           = Inr (0, length (filter (is_file (files w2)) (scanned (files w2) root deep)), w2)
       \<and> list_all (\<lambda>p. is_file (files w2) p \<longrightarrow> CHR ''@'' \<notin> set (py_stem (path_name p)))
            (scanned (files w2) root deep)"
proof -
  let ?it = "scanned (files w) root deep"
  let ?it2 = "scanned (files w2) root deep"
  have ok: "listing_ok (files w) ?it" using assms(1) by (rule scanned_listing_ok)
  have run: "rename_loop False ?it w 0 0 = Inr (renamed, skipped, w1)"
    using assms(2) by (simp add: rename_in_directory_loop)
  have none: "compute_target_name p = None" if p: "p \<in> set ?it2" and f: "is_file (files w2) p" for p
  proof (rule ccontr)
    assume c: "compute_target_name p \<noteq> None"
    from p have s: "in_scope root deep p" by (simp add: set_scanned)
    from f assms(3) have "is_file (files w1) p" by (simp add: is_file_def)
    from rename_loop_leaves_no_at[OF ok run this c]
    have "is_file (files w) p" "p \<notin> set ?it" by simp_all
    moreover from \<open>is_file (files w) p\<close> s have "p \<in> set ?it"
      by (simp add: set_scanned is_file_exists)
    ultimately show False by simp
  qed
  from rename_loop_idle[of ?it2 w2 dry 0 0, OF none]
  have "rename_in_directory root deep dry w2
           = Inr (0, length (filter (is_file (files w2)) ?it2), w2)"
    by (simp add: rename_in_directory_loop)
  moreover have "list_all (\<lambda>p. is_file (files w2) p \<longrightarrow> CHR ''@'' \<notin> set (py_stem (path_name p))) ?it2"
    unfolding list_all_iff
  proof (intro ballI impI)
    fix p assume "p \<in> set ?it2" "is_file (files w2) p"
    then have "compute_target_name p = None" by (rule none)
    then show "CHR ''@'' \<notin> set (py_stem (path_name p))"
      by (simp add: compute_target_name_def Let_def split1_head_all split: if_splits)
  qed
  ultimately show ?thesis by (rule conjI)
qed

theorem second_run_renames_nothing_witness:
  "well_formed [([''wg''], Directory),
                ([''wg'', ''a@x.conf''], RegularFile False ''key 1''),
                ([''wg'', ''a.conf''], RegularFile False ''key 2''),
                ([''wg'', ''a@y@z.conf''], RegularFile False ''key 3''),
                ([''wg'', ''@q.conf''], RegularFile False ''key 4'')]
   \<and> rename_in_directory [''wg''] False False
        \<lparr>files = [([''wg''], Directory),
                ([''wg'', ''a@x.conf''], RegularFile False ''key 1''),
                ([''wg'', ''a.conf''], RegularFile False ''key 2''),
                ([''wg'', ''a@y@z.conf''], RegularFile False ''key 3''),
                ([''wg'', ''@q.conf''], RegularFile False ''key 4'')],
         stdout = [], stderr = []\<rparr>
       = Inr (3, 1,
        \<lparr>files = [([''wg''], Directory),
                ([''wg'', ''a-1.conf''], RegularFile False ''key 1''),
                ([''wg'', ''a.conf''], RegularFile False ''key 2''),
                ([''wg'', ''a-2.conf''], RegularFile False ''key 3''),
                ([''wg'', ''.conf''], RegularFile False ''key 4'')],
         stdout = [''Renamed: a@x.conf -> a-1.conf'', ''Renamed: a@y@z.conf -> a-2.conf'',
                   ''Renamed: @q.conf -> .conf''],
         stderr = []\<rparr>)
   \<and> rename_in_directory [''wg''] False False
        \<lparr>files = [([''wg''], Directory),
                ([''wg'', ''a-1.conf''], RegularFile False ''key 1''),
                ([''wg'', ''a.conf''], RegularFile False ''key 2''),
                ([''wg'', ''a-2.conf''], RegularFile False ''key 3''),
                ([''wg'', ''.conf''], RegularFile False ''key 4'')],
         stdout = [''Renamed: a@x.conf -> a-1.conf'', ''Renamed: a@y@z.conf -> a-2.conf'',
                   ''Renamed: @q.conf -> .conf''],
         stderr = []\<rparr>
       = Inr (0, 4,
        \<lparr>files = [([''wg''], Directory),
                ([''wg'', ''a-1.conf''], RegularFile False ''key 1''),
                ([''wg'', ''a.conf''], RegularFile False ''key 2''),
                ([''wg'', ''a-2.conf''], RegularFile False ''key 3''),
                ([''wg'', ''.conf''], RegularFile False ''key 4'')],
         stdout = [''Renamed: a@x.conf -> a-1.conf'', ''Renamed: a@y@z.conf -> a-2.conf'',
                   ''Renamed: @q.conf -> .conf''],
         stderr = []\<rparr>)"
proof -
  let ?fs = "[([''wg''], Directory),
                ([''wg'', ''a@x.conf''], RegularFile False ''key 1''),
                ([''wg'', ''a.conf''], RegularFile False ''key 2''),
                ([''wg'', ''a@y@z.conf''], RegularFile False ''key 3''),
                ([''wg'', ''@q.conf''], RegularFile False ''key 4'')]"
  let ?w = "\<lparr>files = ?fs, stdout = [], stderr = []\<rparr>"
  let ?fs1 = "[([''wg''], Directory),
                ([''wg'', ''a-1.conf''], RegularFile False ''key 1''),
                ([''wg'', ''a.conf''], RegularFile False ''key 2''),
                ([''wg'', ''a-2.conf''], RegularFile False ''key 3''),
                ([''wg'', ''.conf''], RegularFile False ''key 4'')]"
  let ?w1 = "\<lparr>files = ?fs1,
         stdout = [''Renamed: a@x.conf -> a-1.conf'', ''Renamed: a@y@z.conf -> a-2.conf'',
                   ''Renamed: @q.conf -> .conf''],
         stderr = []\<rparr>"
  have wf: "well_formed (files ?w)" by code_simp
  have run: "rename_in_directory [''wg''] False False ?w = Inr (3, 1, ?w1)" by code_simp
  have n: "length (filter (is_file (files ?w1)) (scanned (files ?w1) [''wg''] False)) = 4"
    by code_simp
  from second_run_renames_nothing[OF wf run refl, of False, THEN conjunct1]
  have "rename_in_directory [''wg''] False False ?w1 = Inr (0, 4, ?w1)"
    unfolding n .
  with wf run show ?thesis by simp
qed

section \<open>Further properties\<close>

text \<open>
  The extension is kept whenever the stem does not begin with \<^verbatim>\<open>@\<close>: for a file whose name
  matches \<^verbatim>\<open>*.conf\<close> and does not begin with \<^verbatim>\<open>@\<close>, the final name, numbered or not, ends in
  \<^verbatim>\<open>.conf\<close> and has the suffix \<^verbatim>\<open>.conf\<close>.
\<close>

theorem final_name_keeps_extension:
  assumes m: "matches_conf (path_name file)" and v: "valid_name (path_name file)"
    and c: "compute_target_name file = Some t"
    and h: "hd (path_name file) \<noteq> CHR ''@''"
    and ch: "choose_target fs file t = Inr target"
  shows "matches_conf (path_name target) \<and> py_suffix (path_name target) = ''.conf''"
proof -
  let ?n = "path_name file"
  let ?pre = "split1_head (py_stem ?n) (CHR ''@'')"
  from m obtain s where n: "?n = s @ ''.conf''" unfolding matches_conf_iff by (rule exE)
  have s: "s \<noteq> []"
  proof
    assume "s = []"
    then have "CHR ''@'' \<notin> set ?n" unfolding n by simp
    then show False using c by (simp add: compute_target_name_no_at)
  qed
  then have st: "py_stem ?n = s" unfolding n by (rule py_stem_conf)
  from s h have "hd s \<noteq> CHR ''@''" unfolding n by simp
  with s have pre: "?pre \<noteq> []" unfolding st by (cases s) (simp_all add: split1_head_def)
  have t: "t = ?pre @ ''.conf''" using m c by (rule compute_target_name_conf)
  have tst: "py_stem t = ?pre" and tsu: "py_suffix t = ''.conf''"
    unfolding t using pre by (rule py_stem_conf, rule py_suffix_conf)
  from compute_target_name_valid[OF m c v] have vt: "valid_name t" by simp
  show ?thesis
  proof (cases "path_exists fs (path_join (path_parent file) t)")
    case False
    from choose_target_free[OF v vt False] ch have "path_name target = t"
      by (simp add: path_name_join)
    then show ?thesis using tsu unfolding t matches_conf_iff
      by (intro conjI exI[of _ ?pre]) simp_all
  next
    case True
    from choose_target_taken[OF v vt True] ch
    obtain i where "path_name target = numbered_name (py_stem t) i (py_suffix t)"
      by (auto simp: path_name_join)
    then have nm: "path_name target = (?pre @ ''-'' @ format_int i) @ ''.conf''"
      unfolding tst tsu by (simp add: numbered_name_def)
    have "py_suffix ((?pre @ ''-'' @ format_int i) @ ''.conf'') = ''.conf''"
      by (rule py_suffix_conf) simp
    then show ?thesis unfolding nm matches_conf_iff
      by (intro conjI exI[of _ "?pre @ ''-'' @ format_int i"]) simp_all
  qed
qed

theorem final_name_keeps_extension_witness:
  "matches_conf (path_name [''wg'', ''a@x.conf'']) \<and> valid_name (path_name [''wg'', ''a@x.conf''])
   \<and> compute_target_name [''wg'', ''a@x.conf''] = Some ''a.conf''
   \<and> hd (path_name [''wg'', ''a@x.conf'']) \<noteq> CHR ''@''
   \<and> choose_target [([''wg'', ''a.conf''], Special)] [''wg'', ''a@x.conf''] ''a.conf''
       = Inr [''wg'', ''a-1.conf'']
   \<and> matches_conf (path_name [''wg'', ''a-1.conf''])
   \<and> py_suffix (path_name [''wg'', ''a-1.conf'']) = ''.conf''"
proof -
  have m: "matches_conf (path_name [''wg'', ''a@x.conf''])" by code_simp
  have v: "valid_name (path_name [''wg'', ''a@x.conf''])" by code_simp
  have c: "compute_target_name [''wg'', ''a@x.conf''] = Some ''a.conf''" by code_simp
  have h: "hd (path_name [''wg'', ''a@x.conf'']) \<noteq> CHR ''@''" by code_simp
  have ch: "choose_target [([''wg'', ''a.conf''], Special)] [''wg'', ''a@x.conf''] ''a.conf''
       = Inr [''wg'', ''a-1.conf'']" by code_simp
  from final_name_keeps_extension[OF m v c h ch] m v c h ch show ?thesis by simp
qed

text \<open>
  Only listed entries are touched: whatever the mode and whether or not the run completes,
  an entry that the listing does not hold (without \<^verbatim>\<open>--recursive\<close>: anything that is not a
  child of the root matching \<^verbatim>\<open>*.conf\<close>, files in subdirectories included) is afterwards
  what it was before.
\<close>

theorem unlisted_entries_untouched:
  assumes "well_formed (files w)" and "path_exists (files w) q" and "\<not> in_scope root deep q"
  shows "map_of (files (final_world (rename_in_directory root deep dry w))) q = map_of (files w) q"
proof -
  have ok: "listing_ok (files w) (scanned (files w) root deep)"
    using assms(1) by (rule scanned_listing_ok)
  from assms(3) have "q \<notin> set (scanned (files w) root deep)" by (simp add: set_scanned)
  from rename_loop_frame[OF ok assms(2) this] show ?thesis
    by (simp add: rename_in_directory_loop)
qed

theorem unlisted_entries_untouched_witness:
  "well_formed [([''wg''], Directory), ([''wg'', ''a@x.conf''], RegularFile False ''key 1''),
                ([''wg'', ''sub''], Directory),
                ([''wg'', ''sub'', ''b@y.conf''], RegularFile False ''key 2'')]
   \<and> path_exists [([''wg''], Directory), ([''wg'', ''a@x.conf''], RegularFile False ''key 1''),
                ([''wg'', ''sub''], Directory),
                ([''wg'', ''sub'', ''b@y.conf''], RegularFile False ''key 2'')]
        [''wg'', ''sub'', ''b@y.conf'']
   \<and> \<not> in_scope [''wg''] False [''wg'', ''sub'', ''b@y.conf'']
   \<and> map_of (files (final_world (rename_in_directory [''wg''] False False
        \<lparr>files = [([''wg''], Directory), ([''wg'', ''a@x.conf''], RegularFile False ''key 1''),
                ([''wg'', ''sub''], Directory),
                ([''wg'', ''sub'', ''b@y.conf''], RegularFile False ''key 2'')],
         stdout = [], stderr = []\<rparr>))) [''wg'', ''sub'', ''b@y.conf'']
       = Some (RegularFile False ''key 2'')"
proof -
  let ?fs = "[([''wg''], Directory), ([''wg'', ''a@x.conf''], RegularFile False ''key 1''),
                ([''wg'', ''sub''], Directory),
                ([''wg'', ''sub'', ''b@y.conf''], RegularFile False ''key 2'')]"
  let ?w = "\<lparr>files = ?fs, stdout = [], stderr = []\<rparr>"
  have wf: "well_formed (files ?w)" by code_simp
  have e: "path_exists (files ?w) [''wg'', ''sub'', ''b@y.conf'']" by code_simp
  have n: "\<not> in_scope [''wg''] False [''wg'', ''sub'', ''b@y.conf'']" by code_simp
  have l: "map_of (files ?w) [''wg'', ''sub'', ''b@y.conf''] = Some (RegularFile False ''key 2'')"
    by simp
  from unlisted_entries_untouched[OF wf e n, of False] l wf e n show ?thesis by simp
qed

end
